theory Spec2Isabelle
  imports Main "HOL-Library.AList"
begin

section \<open>JavaScript strings and POSIX paths\<close>

text \<open>
  JavaScript strings are sequences of UTF-16 code units. They are modelled as lists of
  natural numbers, so that \<open>length\<close> counts what \<open>String.length\<close> counts and a check mark
  (U+2713) is one element. \<open>js\<close> turns an ASCII literal into such a string.
\<close>

type_synonym jsstring = "nat list"

definition js :: "string \<Rightarrow> jsstring" where
  "js s = map of_char s"

text \<open>\<open>toLowerCase\<close> on the letters A to Z; code units beyond ASCII are left as they are.\<close>

definition toLowerCase :: "jsstring \<Rightarrow> jsstring" where
  "toLowerCase s = map (\<lambda>c. if 65 \<le> c \<and> c \<le> 90 then c + 32 else c) s"

definition startsWith :: "jsstring \<Rightarrow> jsstring \<Rightarrow> bool" where
  "startsWith s p = (take (length p) s = p)"

fun string_includes :: "jsstring \<Rightarrow> jsstring \<Rightarrow> bool" where
  "string_includes [] p = (p = [])"
| "string_includes (c # cs) p =
     (if startsWith (c # cs) p then True else string_includes cs p)"

text \<open>The character classes \<open>\d\<close>, \<open>\w\<close>, \<open>\s\<close> (which is also what \<open>trim\<close> removes),
  \<open>[A-Za-z]\<close>, and the line terminators, which \<open>.\<close> does not match.\<close>

definition isDigit :: "nat \<Rightarrow> bool" where
  "isDigit c = (48 \<le> c \<and> c \<le> 57)"

definition isAsciiLetter :: "nat \<Rightarrow> bool" where
  "isAsciiLetter c = ((65 \<le> c \<and> c \<le> 90) \<or> (97 \<le> c \<and> c \<le> 122))"

definition isWordChar :: "nat \<Rightarrow> bool" where
  "isWordChar c = (isDigit c \<or> isAsciiLetter c \<or> c = 95)"

definition isSpace :: "nat \<Rightarrow> bool" where
  "isSpace c =
     (c \<in> set [9, 10, 11, 12, 13, 32, 160, 5760, 8232, 8233, 8239, 8287, 12288, 65279]
      \<or> (8192 \<le> c \<and> c \<le> 8202))"

definition isLineTerminator :: "nat \<Rightarrow> bool" where
  "isLineTerminator c = (c \<in> set [10, 13, 8232, 8233])"

definition trim :: "jsstring \<Rightarrow> jsstring" where
  "trim s = rev (dropWhile isSpace (rev (dropWhile isSpace s)))"

text \<open>\<open>Number.prototype.toString\<close> for a natural number: its decimal digits.\<close>

fun toString :: "nat \<Rightarrow> jsstring" where
  "toString n = (if n < 10 then [48 + n] else toString (n div 10) @ [48 + n mod 10])"

declare toString.simps [simp del]

text \<open>\<open>s.replace(/pat/g, rep)\<close> for a pattern that is a literal text and a replacement
  without \<open>$\<close> sequences.\<close>

function replaceAll :: "jsstring \<Rightarrow> jsstring \<Rightarrow> jsstring \<Rightarrow> jsstring" where
  "replaceAll pat rep [] = []"
| "replaceAll pat rep (c # cs) =
     (if pat \<noteq> [] \<and> startsWith (c # cs) pat
      then rep @ replaceAll pat rep (drop (length pat - 1) cs)
      else c # replaceAll pat rep cs)"
  by pat_completeness auto
termination
  by (relation "measure (\<lambda>(pat, rep, s). length s)") auto

text \<open>\<open>s.split(sep)\<close> for a separator of one code unit, and \<open>parts.join(sep)\<close>.\<close>

fun split_on :: "nat \<Rightarrow> jsstring \<Rightarrow> jsstring list" where
  "split_on sep [] = [[]]"
| "split_on sep (c # cs) =
     (if c = sep then [] # split_on sep cs
      else (case split_on sep cs of
              [] \<Rightarrow> [[c]]
            | part # parts \<Rightarrow> (c # part) # parts))"

fun join_with :: "jsstring \<Rightarrow> jsstring list \<Rightarrow> jsstring" where
  "join_with sep [] = []"
| "join_with sep [part] = part"
| "join_with sep (part # parts) = part @ sep @ join_with sep parts"

text \<open>
  \<open>path.resolve\<close> and \<open>path.join\<close> of Node on POSIX, for an absolute first argument (the
  manager only passes absolute ones): the segments are normalised, an empty segment
  and \<open>.\<close> are dropped, \<open>..\<close> removes the segment before it and stays at the root, and the
  result is \<open>/\<close> followed by the segments joined by \<open>/\<close>. \<open>resolve\<close> restarts from the
  root when its second argument is absolute.
\<close>

fun normalize_segments :: "jsstring list \<Rightarrow> jsstring list \<Rightarrow> jsstring list" where
  "normalize_segments acc [] = rev acc"
| "normalize_segments acc (seg # segs) =
     (if seg = [] \<or> seg = [46] then normalize_segments acc segs
      else if seg = [46, 46] then normalize_segments (tl acc) segs
      else normalize_segments (seg # acc) segs)"

definition absolute_path :: "jsstring list \<Rightarrow> jsstring" where
  "absolute_path segs = 47 # join_with [47] segs"

definition path_resolve :: "jsstring \<Rightarrow> jsstring \<Rightarrow> jsstring" where
  "path_resolve base p =
     (if startsWith p [47] then absolute_path (normalize_segments [] (split_on 47 p))
      else absolute_path (normalize_segments [] (split_on 47 base @ split_on 47 p)))"

definition path_join :: "jsstring \<Rightarrow> jsstring \<Rightarrow> jsstring" where
  "path_join base p = absolute_path (normalize_segments [] (split_on 47 base @ split_on 47 p))"

section \<open>Data model of the build server (build-server/project-manager.ts)\<close>

text \<open>The errors thrown by the manager, one constructor per \<open>throw new Error(...)\<close>.\<close>

datatype error =
    NotFound
  | PathEscape
  | PortExhausted
  | TemplateNotFound
  | TemplateNotImplemented

datatype level = Info | Error | Success | Warn

record Project =
  proj_id :: jsstring
  proj_name :: jsstring
  proj_framework :: jsstring
  proj_description :: "jsstring option"
  proj_path :: jsstring
  proj_createdAt :: nat

datatype status = Creating | Installing | Starting | Ready | Failed

record ProjectStatus =
  st_id :: jsstring
  st_name :: jsstring
  st_framework :: jsstring
  st_description :: "jsstring option"
  st_status :: status
  st_running :: bool
  st_port :: "nat option"
  st_url :: "jsstring option"
  st_devServerUrl :: "jsstring option"
  st_files :: "jsstring list"
  st_sentryConfigured :: bool

record LogEntry =
  log_timestamp :: nat
  log_level :: level
  log_message :: jsstring
  log_projectId :: jsstring

text \<open>
  A \<open>LogCallback\<close> is a function object; the hub only compares callbacks by identity and
  calls them, so a callback is modelled by a number naming it, and calling it is recorded
  in the field \<open>delivered\<close> of the state.
\<close>

type_synonym LogCallback = nat

text \<open>\<open>ChildProcess\<close>: the only field the manager reads is \<open>pid\<close> (undefined when the
  spawn did not produce a process).\<close>

record ChildProcess =
  child_pid :: "nat option"

text \<open>What the manager asks of the operating system, in the order it asks: a spawn
  (command, arguments, working directory, \<open>PORT\<close>), the two signals sent to a child,
  and \<open>lsof -ti:port | xargs kill -9\<close>.\<close>

datatype os_action =
    Spawn jsstring "jsstring list" jsstring nat
  | SigTerm "nat option"
  | SigKill "nat option"
  | KillPort nat

text \<open>
  The file system as the manager sees it. A path names the file or directory given by
  its normalised segments; the disk holds the directories that exist and the contents
  of the regular files, in the order of their creation. The calls of \<open>fs/promises\<close>
  are taken to succeed.
\<close>

definition path_segments :: "jsstring \<Rightarrow> jsstring list" where
  "path_segments p = normalize_segments [] (split_on 47 p)"

record FileSystem =
  fs_dirs :: "jsstring list set"
  fs_files :: "(jsstring list \<times> jsstring) list"

definition empty_disk :: FileSystem where
  "empty_disk = \<lparr> fs_dirs = {}, fs_files = [] \<rparr>"

text \<open>\<open>mkdir\<close> with \<open>recursive\<close> makes sure that the directory and its ancestors exist.\<close>

definition mkdir_recursive :: "FileSystem \<Rightarrow> jsstring \<Rightarrow> FileSystem" where
  "mkdir_recursive d p =
     (let segs = path_segments p
      in d\<lparr>fs_dirs := fs_dirs d \<union> set (map (\<lambda>k. take k segs) [0..<length segs + 1])\<rparr>)"

definition fs_writeFile :: "FileSystem \<Rightarrow> jsstring \<Rightarrow> jsstring \<Rightarrow> FileSystem" where
  "fs_writeFile d p content =
     d\<lparr>fs_files := AList.update (path_segments p) content (fs_files d)\<rparr>"

definition existsSync :: "FileSystem \<Rightarrow> jsstring \<Rightarrow> bool" where
  "existsSync d p =
     (path_segments p \<in> fs_dirs d \<or> map_of (fs_files d) (path_segments p) \<noteq> None)"

text \<open>A path lies inside a directory when its segments continue the directory's.\<close>

definition inside_dir :: "jsstring \<Rightarrow> jsstring \<Rightarrow> bool" where
  "inside_dir dir p =
     (take (length (path_segments dir)) (path_segments p) = path_segments dir)"

text \<open>
  The state of a \<open>ProjectManager\<close>. The \<open>Map\<close>s of the class are association lists in
  insertion order (\<open>Map.set\<close> is \<open>AList.update\<close>, \<open>Map.delete\<close> is \<open>AList.delete\<close>,
  \<open>Map.get\<close> is \<open>map_of\<close>); a \<open>Set\<close> of callbacks is the list of its elements in
  insertion order. The remaining fields are the environment the methods act on:
  the module constant \<open>PROJECTS_DIR\<close>, the callbacks' deliveries, the disk, the requests
  to the operating system, the wall clock read by \<open>new Date()\<close>, and the \<open>close\<close>
  listeners of the spawned children that have not fired yet (each one is the pair of
  \<open>projectId\<close> and \<open>port\<close> that its closure captured).
\<close>

record manager =
  projects :: "(jsstring \<times> Project) list"
  processes :: "(jsstring \<times> ChildProcess) list"
  ports :: "(jsstring \<times> nat) list"
  usedPorts :: "nat set"
  logSubscriptions :: "(jsstring \<times> LogCallback list) list"
  PROJECTS_DIR :: jsstring
  delivered :: "(LogCallback \<times> LogEntry) list"
  disk :: FileSystem
  os_trace :: "os_action list"
  clock :: nat
  close_listeners :: "(jsstring \<times> nat) list"

definition PORT_RANGE_START :: nat where
  "PORT_RANGE_START = 3002"

definition PORT_RANGE_END :: nat where
  "PORT_RANGE_END = 3100"

text \<open>A manager right after construction, before \<open>init\<close> has run, in a process whose
  working directory is \<open>cwd\<close>, on disk \<open>d\<close> at time \<open>t\<close>.\<close>

definition new_manager :: "jsstring \<Rightarrow> FileSystem \<Rightarrow> nat \<Rightarrow> manager" where
  "new_manager cwd d t =
     \<lparr> projects = [], processes = [], ports = [], usedPorts = {},
       logSubscriptions = [], PROJECTS_DIR = path_resolve cwd (js ''projects''),
       delivered = [], disk = d, os_trace = [], clock = t, close_listeners = [] \<rparr>"

section \<open>Port allocator\<close>

text \<open>The \<open>for\<close> loop of \<open>allocatePort\<close>, started at \<open>port\<close>.\<close>

function allocatePort_loop :: "nat \<Rightarrow> nat set \<Rightarrow> error + (nat \<times> nat set)" where
  "allocatePort_loop port used =
     (if port \<le> PORT_RANGE_END then
        (if port \<notin> used then Inr (port, insert port used)
         else allocatePort_loop (port + 1) used)
      else Inl PortExhausted)"
  by pat_completeness auto
termination
  by (relation "measure (\<lambda>(port, used). PORT_RANGE_END + 1 - port)") auto

declare allocatePort_loop.simps [simp del]

definition allocatePort :: "manager \<Rightarrow> (error + nat) \<times> manager" where
  "allocatePort s =
     (case allocatePort_loop PORT_RANGE_START (usedPorts s) of
        Inl e \<Rightarrow> (Inl e, s)
      | Inr (port, used) \<Rightarrow> (Inr port, s\<lparr>usedPorts := used\<rparr>))"

definition releasePort :: "manager \<Rightarrow> nat \<Rightarrow> manager" where
  "releasePort s port = s\<lparr>usedPorts := usedPorts s - {port}\<rparr>"

section \<open>Startup orphan cleanup\<close>

text \<open>
  The loop of \<open>cleanupOrphanedProcesses\<close>, from \<open>port\<close> up to the bound \<open>hi\<close>: one
  \<open>lsof -ti:port | xargs kill -9\<close> per port. A failing command is caught and ignored, so
  the requests issued do not depend on the commands' outcomes.
\<close>

function cleanup_loop :: "nat \<Rightarrow> nat \<Rightarrow> os_action list" where
  "cleanup_loop port hi =
     (if port \<le> hi then KillPort port # cleanup_loop (port + 1) hi else [])"
  by pat_completeness auto
termination
  by (relation "measure (\<lambda>(port, hi). hi + 1 - port)") auto

declare cleanup_loop.simps [simp del]

definition cleanupOrphanedProcesses :: "manager \<Rightarrow> manager" where
  "cleanupOrphanedProcesses s =
     s\<lparr>os_trace := os_trace s @
          cleanup_loop PORT_RANGE_START (min (PORT_RANGE_START + 10) PORT_RANGE_END)\<rparr>"

text \<open>The ports for which a forced termination was requested.\<close>

fun killed_ports :: "os_action list \<Rightarrow> nat set" where
  "killed_ports [] = {}"
| "killed_ports (KillPort p # as) = insert p (killed_ports as)"
| "killed_ports (_ # as) = killed_ports as"

section \<open>Reconnecting client (src/hooks/useProjectManager.ts)\<close>

text \<open>
  The state of the effect that owns the WebSocket: the counter \<open>reconnectAttempts\<close>, the
  flag \<open>isCleanup\<close>, the \<open>connected\<close> state, the live socket (represented by the \<open>delay\<close>
  constant that its \<open>onclose\<close> closure captured when \<open>connect\<close> created it), and the
  delays handed to \<open>setTimeout(connect, _)\<close> so far, oldest first.
\<close>

record client =
  reconnectAttempts :: nat
  isCleanup :: bool
  connected :: bool
  socket :: "nat option"
  scheduled :: "nat list"

definition maxReconnectDelay :: nat where
  "maxReconnectDelay = 10000"

text \<open>The effect body: the first \<open>connect\<close> is scheduled after 500 ms.\<close>

definition client_init :: client where
  "client_init =
     \<lparr> reconnectAttempts = 0, isCleanup = False, connected = False,
       socket = None, scheduled = [500] \<rparr>"

text \<open>\<open>connect\<close>; \<open>ctor_throws\<close> says whether \<open>new WebSocket\<close> throws.\<close>

definition connect :: "bool \<Rightarrow> client \<Rightarrow> client" where
  "connect ctor_throws c =
     (if isCleanup c then c
      else
        let delay = min (1000 * 2 ^ reconnectAttempts c) maxReconnectDelay in
        if ctor_throws then
          (let c1 = c\<lparr>reconnectAttempts := reconnectAttempts c + 1\<rparr> in
           if \<not> isCleanup c1 then c1\<lparr>scheduled := scheduled c1 @ [delay]\<rparr> else c1)
        else c\<lparr>socket := Some delay\<rparr>)"

definition onopen :: "client \<Rightarrow> client" where
  "onopen c = c\<lparr>connected := True, reconnectAttempts := 0\<rparr>"

definition onclose :: "nat \<Rightarrow> client \<Rightarrow> client" where
  "onclose delay c =
     (let c1 = c\<lparr>connected := False, socket := None\<rparr> in
      if isCleanup c1 then c1
      else
        (let c2 = c1\<lparr>reconnectAttempts := reconnectAttempts c1 + 1\<rparr> in
         c2\<lparr>scheduled := scheduled c2 @ [delay]\<rparr>))"

text \<open>
  The events of the client: the reconnect timer fires and runs \<open>connect\<close>, the live
  socket opens, the live socket closes. An event of a socket can only happen while
  there is one, and a timer is only pending while there is none (it is set by the
  effect body and by \<open>onclose\<close>).
\<close>

datatype client_event = TimerFires | SocketOpens | SocketCloses

fun client_step :: "client \<Rightarrow> client_event \<Rightarrow> client option" where
  "client_step c TimerFires =
     (case socket c of None \<Rightarrow> Some (connect False c) | Some delay \<Rightarrow> None)"
| "client_step c SocketOpens =
     (case socket c of None \<Rightarrow> None | Some delay \<Rightarrow> Some (onopen c))"
| "client_step c SocketCloses =
     (case socket c of None \<Rightarrow> None | Some delay \<Rightarrow> Some (onclose delay c))"

fun client_run :: "client \<Rightarrow> client_event list \<Rightarrow> client option" where
  "client_run c [] = Some c"
| "client_run c (e # es) =
     (case client_step c e of None \<Rightarrow> None | Some c' \<Rightarrow> client_run c' es)"

section \<open>Log fan-out hub\<close>

text \<open>\<open>Set.prototype.add\<close> on the list of a set's elements: a new element goes last.\<close>

definition Set_add :: "'a \<Rightarrow> 'a list \<Rightarrow> 'a list" where
  "Set_add x xs = (if x \<in> set xs then xs else xs @ [x])"

text \<open>\<open>Set.prototype.delete\<close>: afterwards the element is not in the set.\<close>

definition Set_delete :: "'a \<Rightarrow> 'a list \<Rightarrow> 'a list" where
  "Set_delete x xs = removeAll x xs"

text \<open>
  \<open>log\<close> builds the entry and calls every callback of the project's set once, in
  insertion order. (It also prints entries of level \<open>error\<close> on the server console; the
  console is not part of the model.)
\<close>

definition log :: "manager \<Rightarrow> jsstring \<Rightarrow> level \<Rightarrow> jsstring \<Rightarrow> manager" where
  "log s projectId lvl msg =
     (let logEntry = \<lparr> log_timestamp = clock s, log_level = lvl, log_message = msg,
                        log_projectId = projectId \<rparr>
      in case map_of (logSubscriptions s) projectId of
           None \<Rightarrow> s
         | Some subscribers \<Rightarrow>
             s\<lparr>delivered := delivered s @ map (\<lambda>callback. (callback, logEntry)) subscribers\<rparr>)"

definition subscribeToLogs :: "manager \<Rightarrow> jsstring \<Rightarrow> LogCallback \<Rightarrow> manager" where
  "subscribeToLogs s projectId callback =
     (let subs = (case map_of (logSubscriptions s) projectId of
                    None \<Rightarrow> AList.update projectId [] (logSubscriptions s)
                  | Some _ \<Rightarrow> logSubscriptions s)
      in case map_of subs projectId of
           None \<Rightarrow> s\<lparr>logSubscriptions := subs\<rparr>
         | Some subscribers \<Rightarrow>
             s\<lparr>logSubscriptions := AList.update projectId (Set_add callback subscribers) subs\<rparr>)"

definition unsubscribeFromLogs :: "manager \<Rightarrow> jsstring \<Rightarrow> LogCallback \<Rightarrow> manager" where
  "unsubscribeFromLogs s projectId callback =
     (case map_of (logSubscriptions s) projectId of
        None \<Rightarrow> s
      | Some subscribers \<Rightarrow>
          s\<lparr>logSubscriptions :=
               AList.update projectId (Set_delete callback subscribers) (logSubscriptions s)\<rparr>)"

text \<open>The callbacks subscribed to a project, and whether a callback is among them.\<close>

definition subscribers_of :: "manager \<Rightarrow> jsstring \<Rightarrow> LogCallback list" where
  "subscribers_of s projectId =
     (case map_of (logSubscriptions s) projectId of None \<Rightarrow> [] | Some cbs \<Rightarrow> cbs)"

definition subscribed :: "manager \<Rightarrow> jsstring \<Rightarrow> LogCallback \<Rightarrow> bool" where
  "subscribed s projectId callback = (callback \<in> set (subscribers_of s projectId))"

text \<open>The calls of callbacks made between state \<open>s\<close> and a later state \<open>s'\<close>, and the
  number of calls that one callback received among a list of calls.\<close>

definition new_deliveries :: "manager \<Rightarrow> manager \<Rightarrow> (LogCallback \<times> LogEntry) list" where
  "new_deliveries s s' = drop (length (delivered s)) (delivered s')"

definition received :: "LogCallback \<Rightarrow> (LogCallback \<times> LogEntry) list \<Rightarrow> nat" where
  "received callback ds = length (filter (\<lambda>d. fst d = callback) ds)"

text \<open>A JavaScript \<open>Set\<close> holds each element once: the lists that stand for the sets of
  callbacks have no duplicates.\<close>

definition subs_ok :: "manager \<Rightarrow> bool" where
  "subs_ok s = list_all (\<lambda>kv. distinct (snd kv)) (logSubscriptions s)"

text \<open>The operations of the hub, and a run of them.\<close>

datatype hub_op =
    Subscribe jsstring LogCallback
  | Unsubscribe jsstring LogCallback
  | Publish jsstring level jsstring

fun hub_apply :: "manager \<Rightarrow> hub_op \<Rightarrow> manager" where
  "hub_apply s (Subscribe p cb) = subscribeToLogs s p cb"
| "hub_apply s (Unsubscribe p cb) = unsubscribeFromLogs s p cb"
| "hub_apply s (Publish p lvl msg) = log s p lvl msg"

definition hub_run :: "manager \<Rightarrow> hub_op list \<Rightarrow> manager" where
  "hub_run s ops = foldl hub_apply s ops"

text \<open>The number of calls, among a list of calls, that a callback received with an
  entry of a given project.\<close>

definition got_from :: "LogCallback \<Rightarrow> jsstring \<Rightarrow> (LogCallback \<times> LogEntry) list \<Rightarrow> nat" where
  "got_from cb p ds = length (filter (\<lambda>d. fst d = cb \<and> log_projectId (snd d) = p) ds)"

section \<open>Log classifier\<close>

text \<open>
  \<open>s.replace(/\x1b\[[0-9;]*F/g, '')\<close> where \<open>F\<close> is a class of one final character: at an
  escape character followed by \<open>[\<close>, the parameters \<open>[0-9;]*\<close> are skipped; if the next
  character is in the class the whole sequence is removed and the scan goes on behind
  it, otherwise the escape character is kept and the scan goes on with the next
  character.
\<close>

definition isCsiParam :: "nat \<Rightarrow> bool" where
  "isCsiParam c = (isDigit c \<or> c = 59)"

function strip_csi :: "(nat \<Rightarrow> bool) \<Rightarrow> jsstring \<Rightarrow> jsstring" where
  "strip_csi final [] = []"
| "strip_csi final (c # cs) =
     (if c = 27 \<and> startsWith cs [91] then
        (case dropWhile isCsiParam (tl cs) of
           [] \<Rightarrow> c # strip_csi final cs
         | f # rest \<Rightarrow> if final f then strip_csi final rest else c # strip_csi final cs)
      else c # strip_csi final cs)"
  by pat_completeness auto
termination
proof (relation "measure (\<lambda>(final, s). length s)")
  fix final :: "nat \<Rightarrow> bool" and c :: nat and cs :: jsstring and f :: nat and rest :: jsstring
  assume "dropWhile isCsiParam (tl cs) = f # rest"
  then have "Suc (length rest) \<le> length (tl cs)"
    using length_dropWhile_le [of isCsiParam "tl cs"] by simp
  then show "((final, rest), (final, c # cs)) \<in> measure (\<lambda>(final, s). length s)"
    by simp
qed simp_all

text \<open>The spinner and block glyphs of the last filter of \<open>cleanLogLine\<close>.\<close>

definition spinnerGlyphs :: "nat list" where
  "spinnerGlyphs =
     [10251, 10265, 10297, 10296, 10300, 10292, 10278, 10279, 10247, 10255,
      9600, 9604, 9608]"

definition cleanLogLine :: "jsstring \<Rightarrow> jsstring" where
  "cleanLogLine line =
     (let cleaned =
            trim (filter (\<lambda>c. c \<noteq> 13)
              (strip_csi isAsciiLetter (strip_csi (\<lambda>c. c = 109) line)))
      in if cleaned = [] then []
         else if length cleaned < 2 then []
         else if (case cleaned of [c] \<Rightarrow> c \<in> set spinnerGlyphs | _ \<Rightarrow> False) then []
         else cleaned)"

text \<open>\<open>/\berr\b/\<close>: the word \<open>err\<close> with no word character before or behind it;
  \<open>prev\<close> says whether the character before the scanned text is a word character.\<close>

fun match_err_word :: "bool \<Rightarrow> jsstring \<Rightarrow> bool" where
  "match_err_word prev [] = False"
| "match_err_word prev (c # cs) =
     (if \<not> prev \<and> startsWith (c # cs) (js ''err'') \<and>
         (case drop 2 cs of [] \<Rightarrow> True | d # _ \<Rightarrow> \<not> isWordChar d)
      then True
      else match_err_word (isWordChar c) cs)"

text \<open>\<open>/a.*b/\<close> for literal texts \<open>a\<close> and \<open>b\<close>: \<open>a\<close>, then \<open>b\<close> later on the same line.\<close>

fun match_then :: "jsstring \<Rightarrow> jsstring \<Rightarrow> jsstring \<Rightarrow> bool" where
  "match_then a b [] = False"
| "match_then a b (c # cs) =
     (if startsWith (c # cs) a \<and>
         string_includes
           (takeWhile (\<lambda>x. \<not> isLineTerminator x) (drop (length a) (c # cs))) b
      then True
      else match_then a b cs)"

text \<open>\<open>/\d+\s*ms\b/\<close>: a digit, then the rest of the digits and the white space, then
  \<open>ms\<close> with no word character behind it.\<close>

fun match_millis :: "jsstring \<Rightarrow> bool" where
  "match_millis [] = False"
| "match_millis (c # cs) =
     (if isDigit c \<and>
         (let r = dropWhile isSpace (dropWhile isDigit cs)
          in startsWith r (js ''ms'') \<and>
             (case drop 2 r of [] \<Rightarrow> True | d # _ \<Rightarrow> \<not> isWordChar d))
      then True
      else match_millis cs)"

text \<open>The three conditions of \<open>detectLogLevel\<close>, in the order of the source; in
  JavaScript \<open>&&\<close> binds tighter than \<open>||\<close>.\<close>

definition errorPattern :: "jsstring \<Rightarrow> bool" where
  "errorPattern lower =
     (string_includes lower (js ''error'') \<or>
      string_includes lower (js ''failed'') \<or>
      string_includes lower (js ''exception'') \<or>
      string_includes lower (js ''fatal'') \<or>
      match_err_word False lower \<or>
      string_includes lower (js ''cannot find'') \<or>
      (string_includes lower (js ''not found'') \<and> string_includes lower (js ''module'')))"

definition warnPattern :: "jsstring \<Rightarrow> bool" where
  "warnPattern lower =
     (string_includes lower (js ''warn'') \<or>
      string_includes lower (js ''warning'') \<or>
      string_includes lower (js ''deprecated'') \<or>
      string_includes lower (js ''conflict''))"

definition successPattern :: "jsstring \<Rightarrow> bool" where
  "successPattern lower =
     (string_includes lower (js ''ready'') \<or>
      string_includes lower (js ''compiled'') \<or>
      string_includes lower (js ''success'') \<or>
      string_includes lower [10003] \<or>
      string_includes lower [10004] \<or>
      match_then (js ''server'') (js ''running'') lower \<or>
      match_then (js ''local'') (js ''http'') lower \<or>
      string_includes lower (js ''hmr'') \<or>
      (string_includes lower (js ''updated'') \<and>
         (string_includes lower (js ''.tsx'') \<or> string_includes lower (js ''.ts'') \<or>
          string_includes lower (js ''.jsx''))) \<or>
      string_includes lower (js ''page reload'') \<or>
      string_includes lower (js ''reloaded'') \<or>
      (match_millis lower \<and> string_includes lower (js ''vite'')))"

definition detectLogLevel :: "jsstring \<Rightarrow> level" where
  "detectLogLevel message =
     (let lower = toLowerCase message
      in if errorPattern lower then Error
         else if warnPattern lower then Warn
         else if successPattern lower then Success
         else Info)"

text \<open>
  What the output handlers of a dev server do with one line: clean it, skip it when
  nothing is left, otherwise give it the detected level.
\<close>

definition classify :: "jsstring \<Rightarrow> (level \<times> jsstring) option" where
  "classify line =
     (let cleaned = cleanLogLine line
      in if cleaned = [] then None else Some (detectLogLevel cleaned, cleaned))"

text \<open>
  The \<open>data\<close> handler of a dev server's \<open>stdout\<close> or \<open>stderr\<close>: the chunk is appended to
  the stream's buffer, the complete lines are classified and logged, and the last,
  incomplete line is the new buffer.
\<close>

definition onData :: "manager \<Rightarrow> jsstring \<Rightarrow> jsstring \<Rightarrow> jsstring \<Rightarrow> jsstring \<times> manager" where
  "onData s projectId buffer chunk =
     (let lines = split_on 10 (buffer @ chunk)
      in (last lines,
          foldl (\<lambda>s' line. case classify line of
                              None \<Rightarrow> s'
                            | Some (lvl, cleaned) \<Rightarrow> log s' projectId lvl cleaned)
            s (butlast lines)))"

section \<open>Project ids, directory names and the recovery scan\<close>

text \<open>
  \<open>generateId\<close> is \<open>randomBytes(8).toString('hex')\<close>: sixteen lower-case hexadecimal
  digits. The eight random bytes are the argument, read as one number (big-endian).
\<close>

definition hexDigit :: "nat \<Rightarrow> nat" where
  "hexDigit d = (if d < 10 then 48 + d else 87 + d)"

text \<open>The last \<open>k\<close> hexadecimal digits of \<open>n\<close>.\<close>

fun toHex :: "nat \<Rightarrow> nat \<Rightarrow> jsstring" where
  "toHex k n = (if k = 0 then [] else toHex (k - 1) (n div 16) @ [hexDigit (n mod 16)])"

declare toHex.simps [simp del]

definition generateId :: "nat \<Rightarrow> jsstring" where
  "generateId rnd = toHex 16 rnd"

text \<open>\<open>name.toLowerCase().replace(/[^a-z0-9-]/g, '-')\<close>\<close>

definition sanitizeName :: "jsstring \<Rightarrow> jsstring" where
  "sanitizeName name =
     map (\<lambda>c. if (97 \<le> c \<and> c \<le> 122) \<or> isDigit c \<or> c = 45 then c else 45)
       (toLowerCase name)"

text \<open>The directory name that \<open>createProject\<close> gives a project:
  \<open>`${sanitizedName}-${id.slice(0, 6)}`\<close>.\<close>

definition projectDirName :: "jsstring \<Rightarrow> jsstring \<Rightarrow> jsstring" where
  "projectDirName name ident = sanitizeName name @ [45] @ take 6 ident"

text \<open>\<open>entry.name.match(/-([a-f0-9]+)$/)\<close>: the first \<open>-\<close> that is followed, up to the end
  of the name, by one or more characters that are all in \<open>[a-f0-9]\<close>; the result is the
  group.\<close>

definition isHexLower :: "nat \<Rightarrow> bool" where
  "isHexLower c = (isDigit c \<or> (97 \<le> c \<and> c \<le> 102))"

fun match_id_suffix :: "jsstring \<Rightarrow> jsstring option" where
  "match_id_suffix [] = None"
| "match_id_suffix (c # cs) =
     (if c = 45 \<and> cs \<noteq> [] \<and> list_all isHexLower cs then Some cs
      else match_id_suffix cs)"

text \<open>The id that the recovery scan gives the project of a directory; \<open>rnd\<close> is the
  randomness that \<open>generateId\<close> draws when the name has no such suffix.\<close>

definition recoverId :: "jsstring \<Rightarrow> nat \<Rightarrow> jsstring" where
  "recoverId entryName rnd =
     (case match_id_suffix entryName of Some ident \<Rightarrow> ident | None \<Rightarrow> generateId rnd)"

text \<open>
  What the scan reads from the disk for one entry of \<open>PROJECTS_DIR\<close>: its name, whether
  it is a directory, its \<open>package.json\<close> (absent, not parsable, or parsed) and the
  directory's birth time. Of a parsed manifest the scan uses the name and the
  description, when they are present and not empty, and the names of the packages with
  a truthy entry in \<open>dependencies\<close> or \<open>devDependencies\<close>.
\<close>

record PackageJson =
  pkg_name :: "jsstring option"
  pkg_description :: "jsstring option"
  pkg_deps :: "jsstring list"

datatype manifest = NoManifest | BadManifest | Manifest PackageJson

record DirEntry =
  entry_name :: jsstring
  entry_isDirectory :: bool
  entry_manifest :: manifest
  entry_birthtime :: nat

definition detectFramework :: "PackageJson \<Rightarrow> jsstring" where
  "detectFramework packageJson =
     (let deps = pkg_deps packageJson
      in if js ''react'' \<in> set deps then js ''react''
         else if js ''vue'' \<in> set deps then js ''vue''
         else if js ''svelte'' \<in> set deps then js ''svelte''
         else if js ''@angular/core'' \<in> set deps then js ''angular''
         else if js ''laravel'' \<in> set deps then js ''laravel''
         else js ''react'')"

text \<open>The loop of \<open>loadProjectsFromDisk\<close> over the entries; \<open>rnd k\<close> is the randomness of
  the \<open>k\<close>-th call of \<open>generateId\<close>.\<close>

fun load_entries :: "manager \<Rightarrow> DirEntry list \<Rightarrow> (nat \<Rightarrow> nat) \<Rightarrow> nat \<Rightarrow> manager" where
  "load_entries s [] rnd k = s"
| "load_entries s (entry # entries) rnd k =
     (if \<not> entry_isDirectory entry then load_entries s entries rnd k
      else
        (case entry_manifest entry of
           NoManifest \<Rightarrow> load_entries s entries rnd k
         | BadManifest \<Rightarrow> load_entries s entries rnd k
         | Manifest packageJson \<Rightarrow>
             (let matched = match_id_suffix (entry_name entry);
                  ident = recoverId (entry_name entry) (rnd k);
                  project =
                    \<lparr> proj_id = ident,
                      proj_name = (case pkg_name packageJson of
                                     None \<Rightarrow> entry_name entry | Some n \<Rightarrow> n),
                      proj_framework = detectFramework packageJson,
                      proj_description = pkg_description packageJson,
                      proj_path = path_join (PROJECTS_DIR s) (entry_name entry),
                      proj_createdAt = entry_birthtime entry \<rparr>
              in load_entries (s\<lparr>projects := AList.update ident project (projects s)\<rparr>)
                   entries rnd (if matched = None then k + 1 else k))))"

definition loadProjectsFromDisk :: "manager \<Rightarrow> DirEntry list \<Rightarrow> (nat \<Rightarrow> nat) \<Rightarrow> manager" where
  "loadProjectsFromDisk s entries rnd = load_entries s entries rnd 0"

text \<open>\<open>init\<close>: make sure \<open>PROJECTS_DIR\<close> exists, sweep the orphans, scan the disk.\<close>

definition init :: "manager \<Rightarrow> DirEntry list \<Rightarrow> (nat \<Rightarrow> nat) \<Rightarrow> manager" where
  "init s entries rnd =
     (let s1 = (if \<not> existsSync (disk s) (PROJECTS_DIR s)
                then s\<lparr>disk := mkdir_recursive (disk s) (PROJECTS_DIR s)\<rparr> else s);
          s2 = cleanupOrphanedProcesses s1
      in loadProjectsFromDisk s2 entries rnd)"

section \<open>Creating projects and writing files\<close>

text \<open>
  \<open>getTemplate\<close>. The table \<open>reactTemplate\<close> (file path and content of each template file,
  in the order of \<open>Object.entries\<close>) is imported from \<open>./templates/react.js\<close> and is a
  parameter here. The result \<open>Inr None\<close> is the \<open>null\<close> of the \<open>default\<close> branch.
\<close>

type_synonym template = "(jsstring \<times> jsstring) list"

definition getTemplate :: "template \<Rightarrow> jsstring \<Rightarrow> error + template option" where
  "getTemplate reactTemplate framework =
     (let fw = toLowerCase framework
      in if fw = js ''react'' then Inr (Some reactTemplate)
         else if fw = js ''vue'' \<or> fw = js ''svelte'' \<or> fw = js ''angular'' \<or>
                 fw = js ''laravel''
         then Inl TemplateNotImplemented
         else Inr None)"

text \<open>The body of the loop of \<open>generateProjectFiles\<close> for one template file.\<close>

definition write_template_file :: "Project \<Rightarrow> FileSystem \<Rightarrow> jsstring \<times> jsstring \<Rightarrow> FileSystem" where
  "write_template_file project d entry =
     (let processedContent =
            replaceAll (js ''{{DESCRIPTION}}'')
              (case proj_description project of
                 None \<Rightarrow> js ''A new application''
               | Some descr \<Rightarrow> if descr = [] then js ''A new application'' else descr)
              (replaceAll (js ''{{PROJECT_NAME}}'') (proj_name project) (snd entry));
          fullPath = path_join (proj_path project) (fst entry);
          dir = path_join fullPath (js ''..'')
      in fs_writeFile (mkdir_recursive d dir) fullPath processedContent)"

definition generateProjectFiles :: "manager \<Rightarrow> Project \<Rightarrow> template \<Rightarrow> (error + unit) \<times> manager" where
  "generateProjectFiles s project reactTemplate =
     (let s1 = log s (proj_id project) Info
                 (js ''Generating '' @ proj_framework project @ js '' template files...'')
      in case getTemplate reactTemplate (proj_framework project) of
           Inl e \<Rightarrow> (Inl e, s1)
         | Inr None \<Rightarrow> (Inl TemplateNotFound, s1)
         | Inr (Some template) \<Rightarrow>
             (let s2 = s1\<lparr>disk := foldl (write_template_file project) (disk s1) template\<rparr>
              in (Inr (), log s2 (proj_id project) Success (js ''Template files generated''))))"

text \<open>\<open>createProject\<close>; \<open>rnd\<close> is the randomness drawn by \<open>generateId\<close>.\<close>

definition createProject ::
  "manager \<Rightarrow> jsstring \<Rightarrow> jsstring \<Rightarrow> jsstring option \<Rightarrow> nat \<Rightarrow> template \<Rightarrow>
     (error + Project) \<times> manager" where
  "createProject s name framework description rnd reactTemplate =
     (let ident = generateId rnd;
          projectPath = path_join (PROJECTS_DIR s) (projectDirName name ident);
          s1 = log s ident Info (js ''Creating project: '' @ name);
          s2 = s1\<lparr>disk := mkdir_recursive (disk s1) projectPath\<rparr>;
          project = \<lparr> proj_id = ident, proj_name = name, proj_framework = framework,
                      proj_description = description, proj_path = projectPath,
                      proj_createdAt = clock s2 \<rparr>;
          s3 = s2\<lparr>projects := AList.update ident project (projects s2)\<rparr>
      in case generateProjectFiles s3 project reactTemplate of
           (Inl e, s4) \<Rightarrow> (Inl e, s4)
         | (Inr u, s4) \<Rightarrow>
             (Inr project, log s4 ident Success (js ''Project created at '' @ projectPath)))"

definition writeFile :: "manager \<Rightarrow> jsstring \<Rightarrow> jsstring \<Rightarrow> jsstring \<Rightarrow> (error + unit) \<times> manager" where
  "writeFile s projectId filePath content =
     (case map_of (projects s) projectId of
        None \<Rightarrow> (Inl NotFound, s)
      | Some project \<Rightarrow>
          (let fullPath = path_resolve (proj_path project) filePath
           in if \<not> startsWith fullPath (proj_path project) then (Inl PathEscape, s)
              else
                (let s1 = log s projectId Info (js ''Writing file: '' @ filePath);
                     dir = path_join fullPath (js ''..'');
                     s2 = s1\<lparr>disk := mkdir_recursive (disk s1) dir\<rparr>;
                     s3 = s2\<lparr>disk := fs_writeFile (disk s2) fullPath content\<rparr>
                 in (Inr (), log s3 projectId Success (js ''File written: '' @ filePath)))))"

section \<open>Status of a project\<close>

text \<open>\<open>listProjectFiles\<close> on this disk: the regular files below the project
  directory, relative to it, leaving out what lies in or is named \<open>node_modules\<close>,
  \<open>.git\<close>, \<open>dist\<close> or \<open>build\<close>.\<close>

definition listProjectFiles :: "FileSystem \<Rightarrow> jsstring \<Rightarrow> jsstring list" where
  "listProjectFiles d projectPath =
     (let root = path_segments projectPath
      in map (join_with [47])
           (filter
              (list_all (\<lambda>seg. seg \<noteq> js ''node_modules'' \<and> seg \<noteq> js ''.git'' \<and>
                               seg \<noteq> js ''dist'' \<and> seg \<noteq> js ''build''))
              (map (drop (length root))
                 (filter (\<lambda>f. length root < length f \<and> take (length root) f = root)
                    (map fst (fs_files d))))))"

definition localhost_url :: "nat \<Rightarrow> jsstring" where
  "localhost_url port = js ''http://localhost:'' @ toString port"

definition getProjectStatus :: "manager \<Rightarrow> jsstring \<Rightarrow> error + ProjectStatus" where
  "getProjectStatus s projectId =
     (case map_of (projects s) projectId of
        None \<Rightarrow> Inl NotFound
      | Some project \<Rightarrow>
          (let running = (map_of (processes s) projectId \<noteq> None);
               port = map_of (ports s) projectId;
               truthy_port = (case port of None \<Rightarrow> False | Some n \<Rightarrow> n \<noteq> 0);
               url = (case port of
                        None \<Rightarrow> None
                      | Some n \<Rightarrow> if n \<noteq> 0 then Some (localhost_url n) else None)
           in Inr \<lparr> st_id = proj_id project, st_name = proj_name project,
                    st_framework = proj_framework project,
                    st_description = proj_description project,
                    st_status = (if running \<and> truthy_port then Ready else Creating),
                    st_running = running, st_port = port, st_url = url,
                    st_devServerUrl = url,
                    st_files = listProjectFiles (disk s) (proj_path project),
                    st_sentryConfigured =
                      (existsSync (disk s)
                         (path_join (path_join (proj_path project) (js ''src''))
                            (js ''sentry.ts'')) \<or>
                       existsSync (disk s)
                         (path_join (proj_path project) (js ''sentry.config.ts''))) \<rparr>))"

text \<open>\<open>listProjects\<close>: the status of every key of \<open>projects\<close>, in order; \<open>Promise.all\<close>
  rejects with the first error.\<close>

fun all_or_error :: "(error + 'a) list \<Rightarrow> error + 'a list" where
  "all_or_error [] = Inr []"
| "all_or_error (Inl e # rs) = Inl e"
| "all_or_error (Inr x # rs) =
     (case all_or_error rs of Inl e \<Rightarrow> Inl e | Inr xs \<Rightarrow> Inr (x # xs))"

definition listProjects :: "manager \<Rightarrow> error + ProjectStatus list" where
  "listProjects s = all_or_error (map (getProjectStatus s) (map fst (projects s)))"

section \<open>Starting and stopping dev servers\<close>

definition getStartCommand :: "jsstring \<Rightarrow> nat \<Rightarrow> jsstring \<times> jsstring list" where
  "getStartCommand framework port =
     (let fw = toLowerCase framework
      in if fw = js ''react'' \<or> fw = js ''vue'' \<or> fw = js ''svelte''
         then (js ''npm'', [js ''run'', js ''dev'', js ''--'', js ''--port'', toString port])
         else if fw = js ''angular''
         then (js ''npm'', [js ''start'', js ''--'', js ''--port'', toString port])
         else if fw = js ''laravel''
         then (js ''php'', [js ''artisan'', js ''serve'', js ''--port'', toString port])
         else (js ''npm'', [js ''run'', js ''dev'']))"

text \<open>
  \<open>startDevServer\<close>. \<open>childProcess\<close> is the object that \<open>spawn\<close> returns. The method
  registers the child's \<open>close\<close> listener, whose closure holds \<open>projectId\<close> and \<open>port\<close>.
  The result is the port (the unchecked \<open>ports.get(projectId)!\<close> when the server runs
  already) and the URL.
\<close>

definition startDevServer ::
  "manager \<Rightarrow> jsstring \<Rightarrow> ChildProcess \<Rightarrow> (error + (nat option \<times> jsstring)) \<times> manager" where
  "startDevServer s projectId childProcess =
     (case map_of (projects s) projectId of
        None \<Rightarrow> (Inl NotFound, s)
      | Some project \<Rightarrow>
          if map_of (processes s) projectId \<noteq> None then
            (case map_of (ports s) projectId of
               None \<Rightarrow> (Inr (None, js ''http://localhost:undefined''), s)
             | Some port \<Rightarrow> (Inr (Some port, localhost_url port), s))
          else
            (case allocatePort s of
               (Inl e, s1) \<Rightarrow> (Inl e, s1)
             | (Inr port, s1) \<Rightarrow>
                 (let s2 = s1\<lparr>ports := AList.update projectId port (ports s1)\<rparr>;
                      s3 = log s2 projectId Info
                             (js ''Starting dev server on port '' @ toString port @ js ''...'');
                      cmd = getStartCommand (proj_framework project) port;
                      s4 = s3\<lparr>os_trace := os_trace s3 @
                                [Spawn (fst cmd) (snd cmd) (proj_path project) port]\<rparr>;
                      s5 = s4\<lparr>processes := AList.update projectId childProcess (processes s4),
                              close_listeners := close_listeners s4 @ [(projectId, port)]\<rparr>;
                      s6 = log s5 projectId Success
                             (js ''Dev server running at '' @ localhost_url port)
                  in (Inr (Some port, localhost_url port), s6))))"

text \<open>The \<open>close\<close> listener that \<open>startDevServer\<close> registered with \<open>projectId\<close> and
  \<open>port\<close>; \<open>code\<close> is the exit code, \<open>null\<close> when a signal ended the child.\<close>

definition onChildClose :: "manager \<Rightarrow> jsstring \<Rightarrow> nat \<Rightarrow> nat option \<Rightarrow> manager" where
  "onChildClose s projectId port code =
     (let s1 = log s projectId Info
                 (js ''Dev server stopped with code '' @
                  (case code of None \<Rightarrow> js ''null'' | Some n \<Rightarrow> toString n));
          s2 = s1\<lparr>processes := AList.delete projectId (processes s1)\<rparr>;
          s3 = releasePort s2 port
      in s3\<lparr>ports := AList.delete projectId (ports s3)\<rparr>)"

text \<open>
  What the operating system answers during a \<open>stopDevServer\<close>: whether sending
  \<open>SIGTERM\<close> throws, what \<open>childProcess.killed\<close> is after the wait, whether sending
  \<open>SIGKILL\<close> throws, and whether the \<open>lsof | xargs kill\<close> command fails. Every
  exception is caught and ignored, so the last two answers change nothing.
\<close>

record stop_env =
  term_throws :: bool
  killed_after_wait :: bool
  kill_throws :: bool
  exec_throws :: bool

definition stopDevServer :: "manager \<Rightarrow> jsstring \<Rightarrow> stop_env \<Rightarrow> manager" where
  "stopDevServer s projectId env =
     (case map_of (processes s) projectId of
        None \<Rightarrow> s
      | Some childProcess \<Rightarrow>
          (let s1 = log s projectId Info (js ''Stopping dev server...'');
               port = map_of (ports s1) projectId;
               pid_truthy = (case child_pid childProcess of None \<Rightarrow> False | Some n \<Rightarrow> n \<noteq> 0);
               signals =
                 (if pid_truthy then
                    SigTerm (child_pid childProcess) #
                    (if \<not> term_throws env \<and> \<not> killed_after_wait env
                     then [SigKill (child_pid childProcess)] else [])
                  else []);
               s2 = s1\<lparr>os_trace := os_trace s1 @ signals\<rparr>;
               s3 = (case port of
                       None \<Rightarrow> s2
                     | Some n \<Rightarrow>
                         if n \<noteq> 0 then
                           (let s2a = s2\<lparr>os_trace := os_trace s2 @ [KillPort n]\<rparr>;
                                s2b = releasePort s2a n
                            in s2b\<lparr>ports := AList.delete projectId (ports s2b)\<rparr>)
                         else s2);
               s4 = s3\<lparr>processes := AList.delete projectId (processes s3)\<rparr>
           in log s4 projectId Success (js ''Dev server stopped'')))"

section \<open>Runs of a manager\<close>

text \<open>
  The handlers that change the dev-server state of a manager, as events: a call of
  \<open>startDevServer\<close> (with the child that \<open>spawn\<close> returns), a call of \<open>stopDevServer\<close> (with
  the answers of the operating system), and the \<open>close\<close> event of a spawned child, which
  runs the listener registered for it. A \<open>close\<close> event can only happen for a child
  whose listener is registered and has not fired; it fires once. Each call is one
  step of a run: it is taken from its first statement to its last, and what other
  handlers do while a call waits is not part of a run.
\<close>

datatype event =
    StartDevServer jsstring ChildProcess
  | StopDevServer jsstring stop_env
  | ChildClose jsstring nat "nat option"

fun step :: "manager \<Rightarrow> event \<Rightarrow> manager option" where
  "step s (StartDevServer projectId childProcess) =
     Some (snd (startDevServer s projectId childProcess))"
| "step s (StopDevServer projectId env) = Some (stopDevServer s projectId env)"
| "step s (ChildClose projectId port code) =
     (if (projectId, port) \<in> set (close_listeners s)
      then Some ((onChildClose s projectId port code)
                   \<lparr>close_listeners := remove1 (projectId, port) (close_listeners s)\<rparr>)
      else None)"

fun run :: "manager \<Rightarrow> event list \<Rightarrow> manager option" where
  "run s [] = Some s"
| "run s (e # es) = (case step s e of None \<Rightarrow> None | Some s' \<Rightarrow> run s' es)"

text \<open>The ports held by the process handles: the port of every project that has a
  tracked child.\<close>

definition handle_ports :: "manager \<Rightarrow> nat set" where
  "handle_ports s = set (List.map_filter (\<lambda>kv. map_of (ports s) (fst kv)) (processes s))"

text \<open>The projects to which a port is allocated.\<close>

definition holders :: "manager \<Rightarrow> nat \<Rightarrow> jsstring list" where
  "holders s port = map fst (filter (\<lambda>kv. snd kv = port) (ports s))"

section \<open>Example states\<close>

text \<open>A manager in \<open>/srv\<close> after \<open>createProject\<close> of a project \<open>todo\<close> whose id is
  \<open>0a1b2c3d4e5f6071\<close>, with a template of one file.\<close>

definition todo_manager :: manager where
  "todo_manager =
     snd (createProject (new_manager (js ''/srv'') empty_disk 0) (js ''todo'') (js ''react'')
            None 0x0a1b2c3d4e5f6071 [(js ''package.json'', js ''{}'')])"

text \<open>A manager in \<open>/srv\<close> with three projects, whose ids are sixteen times \<open>a\<close>, \<open>b\<close>
  and \<open>c\<close>, and no dev server.\<close>

definition three_projects :: manager where
  "three_projects =
     (let s0 = new_manager (js ''/srv'') empty_disk 0;
          s1 = snd (createProject s0 (js ''alpha'') (js ''react'') None 0xaaaaaaaaaaaaaaaa []);
          s2 = snd (createProject s1 (js ''beta'') (js ''react'') None 0xbbbbbbbbbbbbbbbb [])
      in snd (createProject s2 (js ''gamma'') (js ''react'') None 0xcccccccccccccccc []))"

section \<open>The port invariant\<close>

text \<open>
  The invariant of the dev-server state: the used ports are the ports recorded for
  projects, no port is recorded for two projects, a port is recorded for exactly the
  projects that have a process handle, and every recorded port is in the managed range.
\<close>

definition lifecycle_ok :: "manager \<Rightarrow> bool" where
  "lifecycle_ok s =
     (usedPorts s = ran (map_of (ports s)) \<and>
      (\<forall>p q port. map_of (ports s) p = Some port \<and> map_of (ports s) q = Some port \<longrightarrow> p = q) \<and>
      dom (map_of (ports s)) = dom (map_of (processes s)) \<and>
      (\<forall>port \<in> ran (map_of (ports s)). PORT_RANGE_START \<le> port \<and> port \<le> PORT_RANGE_END))"

text \<open>A \<open>close\<close> event is timely when it arrives while the project's process handle and
  the port of its listener are still recorded; the other events are always timely. A
  run is timely when each of its events is, in the state in which it happens.\<close>

fun timely :: "manager \<Rightarrow> event \<Rightarrow> bool" where
  "timely s (ChildClose projectId port code) =
     (map_of (processes s) projectId \<noteq> None \<and> map_of (ports s) projectId = Some port)"
| "timely s (StartDevServer projectId childProcess) = True"
| "timely s (StopDevServer projectId env) = True"

fun timely_run :: "manager \<Rightarrow> event list \<Rightarrow> bool" where
  "timely_run s [] = True"
| "timely_run s (e # es) =
     (timely s e \<and> (case step s e of None \<Rightarrow> False | Some s' \<Rightarrow> timely_run s' es))"

section \<open>Properties of the port allocator\<close>

lemma allocatePort_loop_Inr:
  "allocatePort_loop k used = Inr (p, u) \<Longrightarrow>
     k \<le> p \<and> p \<le> PORT_RANGE_END \<and> p \<notin> used \<and> u = insert p used \<and>
     (\<forall>q. k \<le> q \<and> q < p \<longrightarrow> q \<in> used)"
proof (induction k used rule: allocatePort_loop.induct)
  case (1 port used)
  show ?case
  proof (cases "port \<le> PORT_RANGE_END \<and> port \<in> used")
    case True
    with "1.prems" have "allocatePort_loop (port + 1) used = Inr (p, u)"
      by (simp add: allocatePort_loop.simps [of port])
    with "1.IH" True have
      "port + 1 \<le> p \<and> p \<le> PORT_RANGE_END \<and> p \<notin> used \<and> u = insert p used \<and>
       (\<forall>q. port + 1 \<le> q \<and> q < p \<longrightarrow> q \<in> used)"
      by simp
    moreover have "q \<in> used" if "port \<le> q" "q < p" for q
    proof (cases "q = port")
      case True
      with \<open>port \<le> PORT_RANGE_END \<and> port \<in> used\<close> show ?thesis by simp
    next
      case False
      with that calculation show ?thesis by simp
    qed
    ultimately show ?thesis by simp
  next
    case False
    with "1.prems" show ?thesis
      by (auto simp: allocatePort_loop.simps [of port] split: if_splits)
  qed
qed

lemma allocatePort_loop_Inl:
  "allocatePort_loop k used = Inl e \<Longrightarrow>
     e = PortExhausted \<and> (\<forall>q. k \<le> q \<and> q \<le> PORT_RANGE_END \<longrightarrow> q \<in> used)"
proof (induction k used rule: allocatePort_loop.induct)
  case (1 port used)
  show ?case
  proof (cases "port \<le> PORT_RANGE_END \<and> port \<in> used")
    case True
    with "1.prems" have "allocatePort_loop (port + 1) used = Inl e"
      by (simp add: allocatePort_loop.simps [of port])
    with "1.IH" True have
      *: "e = PortExhausted \<and> (\<forall>q. port + 1 \<le> q \<and> q \<le> PORT_RANGE_END \<longrightarrow> q \<in> used)"
      by simp
    have "q \<in> used" if "port \<le> q" "q \<le> PORT_RANGE_END" for q
    proof (cases "q = port")
      case True
      with \<open>port \<le> PORT_RANGE_END \<and> port \<in> used\<close> show ?thesis by simp
    next
      case False
      with that * show ?thesis by simp
    qed
    with * show ?thesis by simp
  next
    case False
    with "1.prems" show ?thesis
      by (auto simp: allocatePort_loop.simps [of port] split: if_splits)
  qed
qed

text \<open>
  C5. \<open>allocatePort\<close> returns the lowest port of the inclusive range 3002..3100 that is
  not in \<open>usedPorts\<close> and marks it used, changing nothing else; it succeeds whenever
  some port of the range is free; when every port of the range is used it fails with
  \<open>PortExhausted\<close> and leaves the state as it was; and once a port has been released,
  the next \<open>allocatePort\<close> returns that very port whenever no lower port is free (so in
  particular when the range was exhausted before the release).
\<close>

theorem allocatePort_lowest_free:
  "(\<forall>p s'. allocatePort s = (Inr p, s') \<longrightarrow>
       3002 \<le> p \<and> p \<le> 3100 \<and> p \<notin> usedPorts s \<and>
       (\<forall>q. 3002 \<le> q \<and> q < p \<longrightarrow> q \<in> usedPorts s) \<and>
       s' = s\<lparr>usedPorts := insert p (usedPorts s)\<rparr>) \<and>
   ((\<exists>p. 3002 \<le> p \<and> p \<le> 3100 \<and> p \<notin> usedPorts s) \<longrightarrow>
       (\<exists>p s'. allocatePort s = (Inr p, s'))) \<and>
   ((\<forall>p. 3002 \<le> p \<and> p \<le> 3100 \<longrightarrow> p \<in> usedPorts s) \<longrightarrow>
       allocatePort s = (Inl PortExhausted, s)) \<and>
   (\<forall>p. 3002 \<le> p \<and> p \<le> 3100 \<and> (\<forall>q. 3002 \<le> q \<and> q < p \<longrightarrow> q \<in> usedPorts s) \<longrightarrow>
       fst (allocatePort (releasePort s p)) = Inr p)"
proof (intro conjI allI impI)
  fix p s'
  assume a: "allocatePort s = (Inr p, s')"
  then obtain u where l: "allocatePort_loop PORT_RANGE_START (usedPorts s) = Inr (p, u)"
    and s': "s' = s\<lparr>usedPorts := u\<rparr>"
    by (auto simp: allocatePort_def split: sum.splits)
  from allocatePort_loop_Inr [OF l] s'
  show "3002 \<le> p" "p \<le> 3100" "p \<notin> usedPorts s"
    "s' = s\<lparr>usedPorts := insert p (usedPorts s)\<rparr>"
    by (simp_all add: PORT_RANGE_START_def PORT_RANGE_END_def)
  fix q
  assume "3002 \<le> q \<and> q < p"
  with allocatePort_loop_Inr [OF l] show "q \<in> usedPorts s"
    by (simp add: PORT_RANGE_START_def)
next
  assume "\<exists>p. 3002 \<le> p \<and> p \<le> 3100 \<and> p \<notin> usedPorts s"
  then obtain p where p: "3002 \<le> p" "p \<le> 3100" "p \<notin> usedPorts s" by blast
  show "\<exists>p s'. allocatePort s = (Inr p, s')"
  proof (cases "allocatePort_loop PORT_RANGE_START (usedPorts s)")
    case (Inl e)
    from allocatePort_loop_Inl [OF Inl] p show ?thesis
      by (simp add: PORT_RANGE_START_def PORT_RANGE_END_def)
  next
    case (Inr r)
    then show ?thesis
      by (cases r) (simp add: allocatePort_def)
  qed
next
  assume full: "\<forall>p. 3002 \<le> p \<and> p \<le> 3100 \<longrightarrow> p \<in> usedPorts s"
  show "allocatePort s = (Inl PortExhausted, s)"
  proof (cases "allocatePort_loop PORT_RANGE_START (usedPorts s)")
    case (Inl e)
    with allocatePort_loop_Inl [OF Inl] show ?thesis
      by (simp add: allocatePort_def)
  next
    case (Inr r)
    obtain p u where r: "r = (p, u)" by (cases r)
    from allocatePort_loop_Inr [OF Inr [unfolded r]] full show ?thesis
      by (auto simp: PORT_RANGE_START_def PORT_RANGE_END_def)
  qed
next
  fix p
  assume p: "3002 \<le> p \<and> p \<le> 3100 \<and> (\<forall>q. 3002 \<le> q \<and> q < p \<longrightarrow> q \<in> usedPorts s)"
  let ?u = "usedPorts s - {p}"
  show "fst (allocatePort (releasePort s p)) = Inr p"
  proof (cases "allocatePort_loop PORT_RANGE_START ?u")
    case (Inl e)
    from allocatePort_loop_Inl [OF Inl] p show ?thesis
      by (auto simp: PORT_RANGE_START_def PORT_RANGE_END_def)
  next
    case (Inr r)
    obtain p' u where r: "r = (p', u)" by (cases r)
    note h = allocatePort_loop_Inr [OF Inr [unfolded r]]
    have "p' = p"
    proof (rule ccontr)
      assume ne: "p' \<noteq> p"
      show False
      proof (cases "p' < p")
        case True
        with p h ne show False by (auto simp: PORT_RANGE_START_def)
      next
        case False
        with ne have "p < p'" by simp
        with h p show False by (auto simp: PORT_RANGE_START_def)
      qed
    qed
    with Inr r show ?thesis
      by (simp add: allocatePort_def releasePort_def)
  qed
qed

theorem allocatePort_lowest_free_witness:
  "fst (allocatePort (releasePort
      ((new_manager (js ''/srv'') empty_disk 0)\<lparr>usedPorts := {3002..3100}\<rparr>) 3050))
     = Inr 3050 \<and>
   allocatePort ((new_manager (js ''/srv'') empty_disk 0)\<lparr>usedPorts := {3002..3100}\<rparr>)
     = (Inl PortExhausted,
        (new_manager (js ''/srv'') empty_disk 0)\<lparr>usedPorts := {3002..3100}\<rparr>)"
  using allocatePort_lowest_free
    [of "(new_manager (js ''/srv'') empty_disk 0)\<lparr>usedPorts := {3002..3100}\<rparr>"]
  by simp

section \<open>Properties of the startup orphan cleanup\<close>

lemma cleanup_loop_map: "cleanup_loop a b = map KillPort [a..<b + 1]"
proof (induction a b rule: cleanup_loop.induct)
  case (1 port hi)
  show ?case
  proof (cases "port \<le> hi")
    case True
    with 1 have "cleanup_loop port hi = KillPort port # map KillPort [port + 1..<hi + 1]"
      by (simp add: cleanup_loop.simps [of port])
    also from True have "\<dots> = map KillPort [port..<hi + 1]"
      by (simp add: upt_conv_Cons)
    finally show ?thesis .
  next
    case False
    then show ?thesis
      by (simp add: cleanup_loop.simps [of port])
  qed
qed

lemma killed_ports_append: "killed_ports (xs @ ys) = killed_ports xs \<union> killed_ports ys"
  by (induction xs rule: killed_ports.induct) auto

lemma killed_ports_map: "killed_ports (map KillPort ps) = set ps"
  by (induction ps) auto

text \<open>
  C7, as stated: the startup cleanup requests a forced termination for every port of
  the managed range 3002..3100. It does not: no termination is requested for port 3100
  (nor for any port above 3012).
\<close>

theorem cleanup_full_range_counterexample:
  "\<not> {3002..3100} \<subseteq>
     killed_ports (os_trace (cleanupOrphanedProcesses
       (new_manager (js ''/srv'') empty_disk 0)))"
proof
  assume "{3002..3100} \<subseteq>
     killed_ports (os_trace (cleanupOrphanedProcesses
       (new_manager (js ''/srv'') empty_disk 0)))"
  then have "3100 \<in> killed_ports (os_trace (cleanupOrphanedProcesses
       (new_manager (js ''/srv'') empty_disk 0)))"
    by auto
  then show False
    by (simp add: cleanupOrphanedProcesses_def new_manager_def cleanup_loop_map
        killed_ports_map PORT_RANGE_START_def PORT_RANGE_END_def)
qed

text \<open>
  C7, amended: the startup cleanup requests a forced termination for each of the
  eleven ports 3002..3012, in ascending order, one request per port, and for no other
  port; it changes nothing else in the manager.
\<close>

theorem cleanup_first_eleven_ports:
  "cleanupOrphanedProcesses s = s\<lparr>os_trace := os_trace s @ map KillPort [3002..<3013]\<rparr> \<and>
   killed_ports (os_trace (cleanupOrphanedProcesses s)) =
     killed_ports (os_trace s) \<union> {3002..3012}"
proof -
  have "min (PORT_RANGE_START + 10) PORT_RANGE_END + 1 = 3013"
    by (simp add: PORT_RANGE_START_def PORT_RANGE_END_def)
  then have *: "cleanupOrphanedProcesses s =
      s\<lparr>os_trace := os_trace s @ map KillPort [3002..<3013]\<rparr>"
    by (simp add: cleanupOrphanedProcesses_def cleanup_loop_map PORT_RANGE_START_def)
  have "set [3002..<3013::nat] = {3002..<3013}"
    by (rule set_upt)
  also have "\<dots> = {3002..3012}"
    by auto
  finally have "killed_ports (os_trace s @ map KillPort [3002..<3013]) =
      killed_ports (os_trace s) \<union> {3002..3012}"
    by (simp only: killed_ports_append killed_ports_map)
  with * show ?thesis
    by (simp del: upt_rec_numeral)
qed

theorem cleanup_first_eleven_ports_witness:
  "killed_ports (os_trace (cleanupOrphanedProcesses
     (new_manager (js ''/srv'') empty_disk 0))) = {3002..3012}"
  using cleanup_first_eleven_ports
    [of "new_manager (js ''/srv'') empty_disk 0", THEN conjunct2]
  by (simp add: new_manager_def)

section \<open>Properties of the reconnecting client\<close>

text \<open>
  What the code does in general: a socket's \<open>onclose\<close> schedules the delay that
  \<open>connect\<close> computed from the counter when it created the socket.
\<close>

lemma connect_captures_delay:
  "\<not> isCleanup c \<Longrightarrow>
     socket (connect False c) = Some (min (1000 * 2 ^ reconnectAttempts c) 10000)"
  by (simp add: connect_def maxReconnectDelay_def Let_def)

lemma onclose_schedules_captured:
  "\<not> isCleanup c \<Longrightarrow>
     scheduled (onclose d c) = scheduled c @ [d] \<and>
     reconnectAttempts (onclose d c) = reconnectAttempts c + 1"
  by (simp add: onclose_def Let_def)

text \<open>Five connections in a row that close without opening: 1, 2, 4, 8 and 10 seconds.\<close>

lemma reconnect_delays_consecutive_failures:
  "map_option scheduled (client_run client_init
      [TimerFires, SocketCloses, TimerFires, SocketCloses, TimerFires, SocketCloses,
       TimerFires, SocketCloses, TimerFires, SocketCloses])
     = Some [500, 1000, 2000, 4000, 8000, 10000]"
  by (simp add: client_init_def connect_def onclose_def maxReconnectDelay_def Let_def)

text \<open>
  C4 at the failing input: the first connection closes without opening, the second one
  opens, which resets the counter to zero, and closes later. At that close the counter
  is 0, so the delay the claim gives is \<open>min (1000 * 2 ^ 0) 10000 = 1000\<close>; the code
  schedules 2000, the delay computed before the open.
\<close>

theorem reconnect_delay_after_open_is_stale:
  "(case client_run client_init [TimerFires, SocketCloses, TimerFires, SocketOpens] of
      None \<Rightarrow> False
    | Some c \<Rightarrow>
        reconnectAttempts c = 0 \<and>
        min (1000 * 2 ^ reconnectAttempts c) maxReconnectDelay = 1000 \<and>
        (case client_step c SocketCloses of
           None \<Rightarrow> False
         | Some c' \<Rightarrow> scheduled c' = [500, 1000, 2000] \<and> reconnectAttempts c' = 1))"
  by (simp add: client_init_def connect_def onopen_def onclose_def maxReconnectDelay_def
      Let_def)

section \<open>Properties of the log fan-out hub\<close>

lemma map_of_update_subs:
  "map_of (AList.update k v al) q = (if q = k then Some v else map_of al q)"
  by (simp add: update_conv')

lemma subscribers_of_subscribe:
  "subscribers_of (subscribeToLogs s p cb) q =
     (if q = p then Set_add cb (subscribers_of s p) else subscribers_of s q)"
  by (cases "map_of (logSubscriptions s) p")
     (simp_all add: subscribers_of_def subscribeToLogs_def map_of_update_subs Set_add_def)

lemma subscribers_of_unsubscribe:
  "subscribers_of (unsubscribeFromLogs s p cb) q =
     (if q = p then Set_delete cb (subscribers_of s p) else subscribers_of s q)"
  by (cases "map_of (logSubscriptions s) p")
     (simp_all add: subscribers_of_def unsubscribeFromLogs_def map_of_update_subs
        Set_delete_def)

lemma logSubscriptions_log: "logSubscriptions (log s p lvl m) = logSubscriptions s"
  by (simp add: log_def Let_def split: option.splits)

lemma subscribers_of_log: "subscribers_of (log s p lvl m) q = subscribers_of s q"
  by (simp add: subscribers_of_def logSubscriptions_log)

lemma delivered_log:
  "delivered (log s p lvl m) =
     delivered s @
     map (\<lambda>c. (c, \<lparr> log_timestamp = clock s, log_level = lvl, log_message = m,
                      log_projectId = p \<rparr>)) (subscribers_of s p)"
  by (simp add: log_def subscribers_of_def Let_def split: option.splits)

lemma new_deliveries_log:
  "new_deliveries s (log s p lvl m) =
     map (\<lambda>c. (c, \<lparr> log_timestamp = clock s, log_level = lvl, log_message = m,
                      log_projectId = p \<rparr>)) (subscribers_of s p)"
  by (simp add: new_deliveries_def delivered_log)

lemma received_map: "received cb (map (\<lambda>c. (c, e)) xs) = count_list xs cb"
  by (induction xs) (simp_all add: received_def)

lemma count_list_distinct:
  "distinct xs \<Longrightarrow> count_list xs x = (if x \<in> set xs then 1 else 0)"
  by (induction xs) auto

lemma subs_ok_distinct: "subs_ok s \<Longrightarrow> distinct (subscribers_of s p)"
proof (cases "map_of (logSubscriptions s) p")
  case None
  then show ?thesis by (simp add: subscribers_of_def)
next
  case (Some cbs)
  assume "subs_ok s"
  moreover from Some have "(p, cbs) \<in> set (logSubscriptions s)"
    by (rule map_of_SomeD)
  ultimately have "distinct cbs"
    by (auto simp: subs_ok_def list_all_iff)
  with Some show ?thesis by (simp add: subscribers_of_def)
qed

lemma list_all_update:
  "list_all P al \<Longrightarrow> P (k, v) \<Longrightarrow> list_all P (AList.update k v al)"
  by (induction al) auto

lemma distinct_Set_add: "distinct xs \<Longrightarrow> distinct (Set_add x xs)"
  by (simp add: Set_add_def)

lemma distinct_Set_delete: "distinct xs \<Longrightarrow> distinct (Set_delete x xs)"
  by (simp add: Set_delete_def distinct_removeAll)

lemma subs_ok_new_manager: "subs_ok (new_manager cwd d t)"
  by (simp add: subs_ok_def new_manager_def)

lemma subs_ok_subscribe: "subs_ok s \<Longrightarrow> subs_ok (subscribeToLogs s p cb)"
proof -
  assume ok: "subs_ok s"
  show ?thesis
  proof (cases "map_of (logSubscriptions s) p")
    case None
    have "list_all (\<lambda>kv. distinct (snd kv))
        (AList.update p (Set_add cb []) (AList.update p [] (logSubscriptions s)))"
      using ok by (intro list_all_update) (simp_all add: subs_ok_def Set_add_def)
    with None show ?thesis
      by (simp add: subscribeToLogs_def subs_ok_def map_of_update_subs)
  next
    case (Some cbs)
    from ok have "distinct (subscribers_of s p)" by (rule subs_ok_distinct)
    with Some have "distinct (Set_add cb cbs)"
      by (simp add: subscribers_of_def distinct_Set_add)
    with ok have "list_all (\<lambda>kv. distinct (snd kv))
        (AList.update p (Set_add cb cbs) (logSubscriptions s))"
      by (intro list_all_update) (simp_all add: subs_ok_def)
    with Some show ?thesis
      by (simp add: subscribeToLogs_def subs_ok_def)
  qed
qed

lemma subs_ok_unsubscribe: "subs_ok s \<Longrightarrow> subs_ok (unsubscribeFromLogs s p cb)"
proof -
  assume ok: "subs_ok s"
  show ?thesis
  proof (cases "map_of (logSubscriptions s) p")
    case None
    with ok show ?thesis by (simp add: unsubscribeFromLogs_def)
  next
    case (Some cbs)
    from ok have "distinct (subscribers_of s p)" by (rule subs_ok_distinct)
    with Some have "distinct (Set_delete cb cbs)"
      by (simp add: subscribers_of_def distinct_Set_delete)
    with ok have "list_all (\<lambda>kv. distinct (snd kv))
        (AList.update p (Set_delete cb cbs) (logSubscriptions s))"
      by (intro list_all_update) (simp_all add: subs_ok_def)
    with Some show ?thesis
      by (simp add: unsubscribeFromLogs_def subs_ok_def)
  qed
qed

lemma subs_ok_log: "subs_ok s \<Longrightarrow> subs_ok (log s p lvl m)"
  by (simp add: subs_ok_def logSubscriptions_log)

lemma subs_ok_hub_run: "subs_ok s \<Longrightarrow> subs_ok (hub_run s ops)"
proof (induction ops arbitrary: s)
  case Nil
  then show ?case by (simp add: hub_run_def)
next
  case (Cons a ops)
  from Cons.prems have "subs_ok (hub_apply s a)"
    by (cases a) (simp_all add: subs_ok_subscribe subs_ok_unsubscribe subs_ok_log)
  then have "subs_ok (hub_run (hub_apply s a) ops)" by (rule Cons.IH)
  then show ?case by (simp add: hub_run_def)
qed

lemma unsubscribe_not_subscribed:
  "\<not> subscribed s p cb \<Longrightarrow> unsubscribeFromLogs s p cb = s"
proof (cases "map_of (logSubscriptions s) p")
  case None
  then show ?thesis by (simp add: unsubscribeFromLogs_def)
next
  case (Some cbs)
  assume "\<not> subscribed s p cb"
  with Some have "Set_delete cb cbs = cbs"
    by (simp add: subscribed_def subscribers_of_def Set_delete_def)
  moreover from Some have "AList.update p cbs (logSubscriptions s) = logSubscriptions s"
    by (rule update_triv)
  ultimately show ?thesis using Some
    by (simp add: unsubscribeFromLogs_def)
qed

text \<open>The deliveries of a run only grow, and an operation other than \<open>Subscribe p cb\<close>
  neither subscribes \<open>cb\<close> to \<open>p\<close> nor calls \<open>cb\<close> with an entry of \<open>p\<close>.\<close>

lemma hub_apply_delivered:
  "\<exists>new. delivered (hub_apply s a) = delivered s @ new \<and>
     (\<not> subscribed s p cb \<longrightarrow> got_from cb p new = 0)"
proof (cases a)
  case (Publish q lvl m)
  show ?thesis
  proof (cases "q = p")
    case True
    then show ?thesis
      by (auto simp: Publish delivered_log got_from_def subscribed_def filter_empty_conv)
  next
    case False
    then show ?thesis
      by (auto simp: Publish delivered_log got_from_def filter_empty_conv)
  qed
qed (simp_all add: subscribeToLogs_def unsubscribeFromLogs_def got_from_def Let_def
      split: option.splits)

lemma hub_apply_keeps_unsubscribed:
  "\<not> subscribed s p cb \<Longrightarrow> a \<noteq> Subscribe p cb \<Longrightarrow> \<not> subscribed (hub_apply s a) p cb"
  by (cases a)
     (auto simp: subscribed_def subscribers_of_subscribe subscribers_of_unsubscribe
        subscribers_of_log Set_add_def Set_delete_def split: if_splits)

lemma got_from_append: "got_from cb p (xs @ ys) = got_from cb p xs + got_from cb p ys"
  by (simp add: got_from_def)

lemma hub_run_no_delivery:
  "\<not> subscribed s p cb \<Longrightarrow> Subscribe p cb \<notin> set ops \<Longrightarrow>
     \<exists>new. delivered (hub_run s ops) = delivered s @ new \<and> got_from cb p new = 0"
proof (induction ops arbitrary: s)
  case Nil
  then show ?case by (simp add: hub_run_def got_from_def)
next
  case (Cons a ops)
  from Cons.prems have ne: "a \<noteq> Subscribe p cb" and rest: "Subscribe p cb \<notin> set ops"
    by auto
  from hub_apply_delivered [of s a p cb] Cons.prems(1)
  obtain n1 where n1: "delivered (hub_apply s a) = delivered s @ n1" "got_from cb p n1 = 0"
    by blast
  from Cons.prems(1) ne have "\<not> subscribed (hub_apply s a) p cb"
    by (rule hub_apply_keeps_unsubscribed)
  from Cons.IH [OF this rest]
  obtain n2 where n2: "delivered (hub_run (hub_apply s a) ops) = delivered (hub_apply s a) @ n2"
    "got_from cb p n2 = 0"
    by blast
  from n1 n2 have "delivered (hub_run s (a # ops)) = delivered s @ (n1 @ n2)"
    by (simp add: hub_run_def)
  moreover from n1 n2 have "got_from cb p (n1 @ n2) = 0"
    by (simp add: got_from_append)
  ultimately show ?case by blast
qed

lemma unsubscribed_after_unsubscribe: "\<not> subscribed (unsubscribeFromLogs s p cb) p cb"
  by (simp add: subscribed_def subscribers_of_unsubscribe Set_delete_def)

lemma received_from_got_from: "(\<forall>p. got_from cb p ds = 0) \<Longrightarrow> received cb ds = 0"
  by (auto simp: got_from_def received_def filter_empty_conv)

lemma new_deliveries_append:
  "delivered s' = delivered s @ new \<Longrightarrow> new_deliveries s s' = new"
  by (simp add: new_deliveries_def)

text \<open>
  C3. In a hub whose callback sets hold each callback once (as every JavaScript \<open>Set\<close>
  does), publishing an entry for project \<open>p\<close> calls each callback once if it is
  subscribed to \<open>p\<close> at that moment and not at all otherwise, and every call carries the
  published entry; the earlier deliveries are untouched. So a callback subscribed only
  to another project receives nothing. After \<open>unsubscribeFromLogs s p cb\<close>, no run of hub
  operations without a new \<open>Subscribe p cb\<close> calls \<open>cb\<close> with an entry of \<open>p\<close>, and if
  \<open>cb\<close> was subscribed to no other project and is not subscribed again, it is not
  called at all. Unsubscribing a callback that is not subscribed returns the state
  unchanged (the operation has no error result).
\<close>

theorem fanout_exactly_once:
  assumes "subs_ok s"
  shows
    "(\<forall>cb. received cb (new_deliveries s (log s p lvl m)) =
            (if subscribed s p cb then 1 else 0)) \<and>
     (\<forall>d \<in> set (new_deliveries s (log s p lvl m)).
        snd d = \<lparr> log_timestamp = clock s, log_level = lvl, log_message = m,
                  log_projectId = p \<rparr>) \<and>
     take (length (delivered s)) (delivered (log s p lvl m)) = delivered s \<and>
     (\<forall>cb q. q \<noteq> p \<and> subscribed s q cb \<and> \<not> subscribed s p cb \<longrightarrow>
        received cb (new_deliveries s (log s p lvl m)) = 0) \<and>
     (\<forall>cb ops. Subscribe p cb \<notin> set ops \<longrightarrow>
        got_from cb p (new_deliveries (unsubscribeFromLogs s p cb)
          (hub_run (unsubscribeFromLogs s p cb) ops)) = 0) \<and>
     (\<forall>cb ops. (\<forall>q. q \<noteq> p \<longrightarrow> \<not> subscribed s q cb) \<and>
        (\<forall>q. Subscribe q cb \<notin> set ops) \<longrightarrow>
        received cb (new_deliveries (unsubscribeFromLogs s p cb)
          (hub_run (unsubscribeFromLogs s p cb) ops)) = 0) \<and>
     (\<forall>cb. \<not> subscribed s p cb \<longrightarrow> unsubscribeFromLogs s p cb = s)"
proof -
  have once: "received cb (new_deliveries s (log s p lvl m)) =
      (if subscribed s p cb then 1 else 0)" for cb
    using subs_ok_distinct [OF assms, of p]
    by (simp add: new_deliveries_log received_map count_list_distinct subscribed_def)
  have entry: "\<forall>d \<in> set (new_deliveries s (log s p lvl m)).
      snd d = \<lparr> log_timestamp = clock s, log_level = lvl, log_message = m,
                log_projectId = p \<rparr>"
    by (auto simp: new_deliveries_log)
  have keep: "take (length (delivered s)) (delivered (log s p lvl m)) = delivered s"
    by (simp add: delivered_log)
  have gone: "got_from cb q (new_deliveries (unsubscribeFromLogs s p cb)
      (hub_run (unsubscribeFromLogs s p cb) ops)) = 0"
    if "\<not> subscribed (unsubscribeFromLogs s p cb) q cb" "Subscribe q cb \<notin> set ops"
    for cb q ops
  proof -
    from hub_run_no_delivery [OF that]
    obtain new where
      "delivered (hub_run (unsubscribeFromLogs s p cb) ops) =
         delivered (unsubscribeFromLogs s p cb) @ new" "got_from cb q new = 0"
      by blast
    then show ?thesis by (simp add: new_deliveries_append)
  qed
  have all_gone: "received cb (new_deliveries (unsubscribeFromLogs s p cb)
      (hub_run (unsubscribeFromLogs s p cb) ops)) = 0"
    if other: "\<forall>q. q \<noteq> p \<longrightarrow> \<not> subscribed s q cb" and ops: "\<forall>q. Subscribe q cb \<notin> set ops"
    for cb ops
  proof (rule received_from_got_from, rule allI)
    fix q
    have "\<not> subscribed (unsubscribeFromLogs s p cb) q cb"
    proof (cases "q = p")
      case True
      then show ?thesis by (simp add: unsubscribed_after_unsubscribe)
    next
      case False
      with other show ?thesis
        by (simp add: subscribed_def subscribers_of_unsubscribe)
    qed
    with ops show "got_from cb q (new_deliveries (unsubscribeFromLogs s p cb)
        (hub_run (unsubscribeFromLogs s p cb) ops)) = 0"
      by (simp add: gone)
  qed
  from once entry keep gone [OF unsubscribed_after_unsubscribe] all_gone
    unsubscribe_not_subscribed
  show ?thesis by (intro conjI allI impI) simp_all
qed

theorem fanout_exactly_once_witness:
  "subs_ok (hub_run (new_manager (js ''/srv'') empty_disk 0)
      [Subscribe (js ''a'') 1, Subscribe (js ''a'') 2, Subscribe (js ''b'') 3]) \<and>
   received 1 (new_deliveries
      (hub_run (new_manager (js ''/srv'') empty_disk 0)
        [Subscribe (js ''a'') 1, Subscribe (js ''a'') 2, Subscribe (js ''b'') 3])
      (log (hub_run (new_manager (js ''/srv'') empty_disk 0)
        [Subscribe (js ''a'') 1, Subscribe (js ''a'') 2, Subscribe (js ''b'') 3])
        (js ''a'') Info (js ''hi''))) = 1 \<and>
   received 3 (new_deliveries
      (hub_run (new_manager (js ''/srv'') empty_disk 0)
        [Subscribe (js ''a'') 1, Subscribe (js ''a'') 2, Subscribe (js ''b'') 3])
      (log (hub_run (new_manager (js ''/srv'') empty_disk 0)
        [Subscribe (js ''a'') 1, Subscribe (js ''a'') 2, Subscribe (js ''b'') 3])
        (js ''a'') Info (js ''hi''))) = 0"
proof -
  let ?s = "hub_run (new_manager (js ''/srv'') empty_disk 0)
      [Subscribe (js ''a'') 1, Subscribe (js ''a'') 2, Subscribe (js ''b'') 3]"
  have ok: "subs_ok ?s"
    by (intro subs_ok_hub_run subs_ok_new_manager)
  have sub: "subscribed ?s (js ''a'') 1" "\<not> subscribed ?s (js ''a'') 3"
    by (simp_all add: subscribed_def subscribers_of_def hub_run_def subscribeToLogs_def
        new_manager_def Set_add_def js_def)
  from fanout_exactly_once [OF ok, of "js ''a''" Info "js ''hi''"] ok sub
  show ?thesis by simp
qed

section \<open>Properties of the log classifier\<close>

lemmas classifier_defs =
  classify_def cleanLogLine_def detectLogLevel_def errorPattern_def warnPattern_def
  successPattern_def toLowerCase_def trim_def isSpace_def isDigit_def isWordChar_def
  isAsciiLetter_def isLineTerminator_def isCsiParam_def spinnerGlyphs_def startsWith_def
  js_def Let_def

text \<open>
  C8. \<open>classify\<close> and \<open>detectLogLevel\<close> are functions of the line alone (they read no
  state, so the same line gets the same result on every run). The level is decided in
  the order error, warn, success, info: a line matching an error pattern is an error
  whatever else it matches, a line matching a warning pattern and no error pattern is
  a warning, a line matching a success pattern and neither of the others is a success,
  and a line matching none is an info. On the corpus: \<open>Error: cannot find module 'x'\<close>
  is an error, \<open>warning: deprecated\<close> a warning, the check mark followed by
  \<open> ready in 120ms\<close> a success and \<open>hello\<close> an info; \<open>warning: build failed\<close> (warning and
  error patterns) is an error, and \<open>ready, with warnings\<close> (success and warning patterns)
  is a warning.
\<close>

theorem classify_precedence_and_corpus:
  "(errorPattern (toLowerCase m) \<longrightarrow> detectLogLevel m = Error) \<and>
   (\<not> errorPattern (toLowerCase m) \<and> warnPattern (toLowerCase m) \<longrightarrow>
      detectLogLevel m = Warn) \<and>
   (\<not> errorPattern (toLowerCase m) \<and> \<not> warnPattern (toLowerCase m) \<and>
    successPattern (toLowerCase m) \<longrightarrow> detectLogLevel m = Success) \<and>
   (\<not> errorPattern (toLowerCase m) \<and> \<not> warnPattern (toLowerCase m) \<and>
    \<not> successPattern (toLowerCase m) \<longrightarrow> detectLogLevel m = Info) \<and>
   classify line =
     (if cleanLogLine line = [] then None
      else Some (detectLogLevel (cleanLogLine line), cleanLogLine line)) \<and>
   classify (js ''Error: cannot find module '' @ [39, 120, 39]) =
     Some (Error, js ''Error: cannot find module '' @ [39, 120, 39]) \<and>
   classify (js ''warning: deprecated'') = Some (Warn, js ''warning: deprecated'') \<and>
   classify (10003 # js '' ready in 120ms'') = Some (Success, 10003 # js '' ready in 120ms'') \<and>
   classify (js ''hello'') = Some (Info, js ''hello'') \<and>
   classify (js ''warning: build failed'') = Some (Error, js ''warning: build failed'') \<and>
   classify (js ''ready, with warnings'') = Some (Warn, js ''ready, with warnings'')"
proof (intro conjI)
  show "classify (js ''Error: cannot find module '' @ [39, 120, 39]) =
     Some (Error, js ''Error: cannot find module '' @ [39, 120, 39])"
    by (simp add: classifier_defs)
  show "classify (js ''warning: deprecated'') = Some (Warn, js ''warning: deprecated'')"
    by (simp add: classifier_defs)
  show "classify (10003 # js '' ready in 120ms'') =
     Some (Success, 10003 # js '' ready in 120ms'')"
    by (simp add: classifier_defs)
  show "classify (js ''hello'') = Some (Info, js ''hello'')"
    by (simp add: classifier_defs)
  show "classify (js ''warning: build failed'') = Some (Error, js ''warning: build failed'')"
    by (simp add: classifier_defs)
  show "classify (js ''ready, with warnings'') = Some (Warn, js ''ready, with warnings'')"
    by (simp add: classifier_defs)
qed (simp_all add: detectLogLevel_def classify_def Let_def)

theorem classify_precedence_and_corpus_witness:
  "errorPattern (toLowerCase (js ''Warning: build FAILED, not ready'')) \<and>
   warnPattern (toLowerCase (js ''Warning: build FAILED, not ready'')) \<and>
   successPattern (toLowerCase (js ''Warning: build FAILED, not ready'')) \<and>
   detectLogLevel (js ''Warning: build FAILED, not ready'') = Error"
proof -
  have "errorPattern (toLowerCase (js ''Warning: build FAILED, not ready''))"
    "warnPattern (toLowerCase (js ''Warning: build FAILED, not ready''))"
    "successPattern (toLowerCase (js ''Warning: build FAILED, not ready''))"
    by (simp_all add: classifier_defs)
  with classify_precedence_and_corpus [of "js ''Warning: build FAILED, not ready''"]
  show ?thesis by blast
qed

section \<open>Properties of \<open>log\<close> used by the other operations\<close>

lemma log_eq:
  "log s p lvl m =
     s\<lparr>delivered := delivered s @
          map (\<lambda>c. (c, \<lparr> log_timestamp = clock s, log_level = lvl, log_message = m,
                           log_projectId = p \<rparr>)) (subscribers_of s p)\<rparr>"
  by (simp add: log_def subscribers_of_def Let_def split: option.splits)

lemma log_fields:
  "projects (log s p lvl m) = projects s"
  "processes (log s p lvl m) = processes s"
  "ports (log s p lvl m) = ports s"
  "usedPorts (log s p lvl m) = usedPorts s"
  "PROJECTS_DIR (log s p lvl m) = PROJECTS_DIR s"
  "disk (log s p lvl m) = disk s"
  "os_trace (log s p lvl m) = os_trace s"
  "clock (log s p lvl m) = clock s"
  "close_listeners (log s p lvl m) = close_listeners s"
  by (simp_all add: log_eq)

lemma log_no_subscribers: "logSubscriptions s = [] \<Longrightarrow> log s p lvl m = s"
  by (simp add: log_def)

section \<open>Properties of \<open>writeFile\<close>\<close>

lemmas string_defs =
  js_def startsWith_def toLowerCase_def isDigit_def path_join_def path_resolve_def
  absolute_path_def path_segments_def Let_def

lemma generateId_example: "generateId 0x0a1b2c3d4e5f6071 = js ''0a1b2c3d4e5f6071''"
  by (simp add: generateId_def toHex.simps hexDigit_def js_def)

lemma todo_manager_projects:
  "projects todo_manager =
     [(js ''0a1b2c3d4e5f6071'',
       \<lparr> proj_id = js ''0a1b2c3d4e5f6071'', proj_name = js ''todo'',
         proj_framework = js ''react'', proj_description = None,
         proj_path = js ''/srv/projects/todo-0a1b2c'', proj_createdAt = 0 \<rparr>)]"
  by (simp add: todo_manager_def createProject_def generateProjectFiles_def getTemplate_def
      new_manager_def log_def projectDirName_def sanitizeName_def generateId_example
      string_defs)

lemma todo_manager_files:
  "fs_files (disk todo_manager) =
     [([js ''srv'', js ''projects'', js ''todo-0a1b2c'', js ''package.json''], js ''{}'')]"
  by (simp add: todo_manager_def createProject_def generateProjectFiles_def getTemplate_def
      new_manager_def log_def projectDirName_def sanitizeName_def generateId_example
      write_template_file_def fs_writeFile_def mkdir_recursive_def empty_disk_def
      string_defs)

lemma todo_manager_subscriptions: "logSubscriptions todo_manager = []"
  by (simp add: todo_manager_def createProject_def generateProjectFiles_def getTemplate_def
      new_manager_def log_def js_def toLowerCase_def Let_def)

text \<open>What the check of \<open>writeFile\<close> does achieve: a file path whose resolution does not
  begin with the text of the project path is rejected, and nothing changes.\<close>

lemma writeFile_rejects:
  "map_of (projects s) projectId = Some project \<Longrightarrow>
   \<not> startsWith (path_resolve (proj_path project) filePath) (proj_path project) \<Longrightarrow>
   writeFile s projectId filePath content = (Inl PathEscape, s)"
  by (simp add: writeFile_def Let_def)

lemma writeFile_rejects_example:
  "writeFile todo_manager (js ''0a1b2c3d4e5f6071'') (js ''../../etc/passwd'') (js ''boom'') =
     (Inl PathEscape, todo_manager)"
  by (rule writeFile_rejects [where project = "snd (hd (projects todo_manager))"])
     (simp_all add: todo_manager_projects string_defs)

text \<open>
  C1 at the failing input. The project \<open>0a1b2c3d4e5f6071\<close> is registered with the
  workspace path \<open>/srv/projects/todo-0a1b2c\<close>. The relative path
  \<open>../todo-0a1b2c-old/x.txt\<close> resolves to \<open>/srv/projects/todo-0a1b2c-old/x.txt\<close>, which
  lies in a sibling directory, outside the project root. \<open>writeFile\<close> does not reject
  it: it returns normally, and afterwards the sibling directory exists and holds the
  file, which did not exist before.
\<close>

theorem writeFile_sibling_directory_not_rejected:
  "map_option proj_path (map_of (projects todo_manager) (js ''0a1b2c3d4e5f6071'')) =
     Some (js ''/srv/projects/todo-0a1b2c'') \<and>
   path_resolve (js ''/srv/projects/todo-0a1b2c'') (js ''../todo-0a1b2c-old/x.txt'') =
     js ''/srv/projects/todo-0a1b2c-old/x.txt'' \<and>
   \<not> inside_dir (js ''/srv/projects/todo-0a1b2c'') (js ''/srv/projects/todo-0a1b2c-old/x.txt'') \<and>
   fst (writeFile todo_manager (js ''0a1b2c3d4e5f6071'') (js ''../todo-0a1b2c-old/x.txt'')
          (js ''boom'')) = Inr () \<and>
   map_of (fs_files (disk todo_manager))
     [js ''srv'', js ''projects'', js ''todo-0a1b2c-old'', js ''x.txt''] = None \<and>
   map_of (fs_files (disk (snd (writeFile todo_manager (js ''0a1b2c3d4e5f6071'')
       (js ''../todo-0a1b2c-old/x.txt'') (js ''boom'')))))
     [js ''srv'', js ''projects'', js ''todo-0a1b2c-old'', js ''x.txt''] = Some (js ''boom'') \<and>
   [js ''srv'', js ''projects'', js ''todo-0a1b2c-old''] \<in>
     fs_dirs (disk (snd (writeFile todo_manager (js ''0a1b2c3d4e5f6071'')
       (js ''../todo-0a1b2c-old/x.txt'') (js ''boom''))))"
proof (intro conjI)
  show "map_option proj_path (map_of (projects todo_manager) (js ''0a1b2c3d4e5f6071'')) =
     Some (js ''/srv/projects/todo-0a1b2c'')"
    by (simp add: todo_manager_projects)
  show "path_resolve (js ''/srv/projects/todo-0a1b2c'') (js ''../todo-0a1b2c-old/x.txt'') =
     js ''/srv/projects/todo-0a1b2c-old/x.txt''"
    by (simp add: string_defs)
  show "\<not> inside_dir (js ''/srv/projects/todo-0a1b2c'')
      (js ''/srv/projects/todo-0a1b2c-old/x.txt'')"
    by (simp add: inside_dir_def string_defs)
  show "fst (writeFile todo_manager (js ''0a1b2c3d4e5f6071'') (js ''../todo-0a1b2c-old/x.txt'')
          (js ''boom'')) = Inr ()"
    by (simp add: writeFile_def todo_manager_projects string_defs)
  show "map_of (fs_files (disk todo_manager))
     [js ''srv'', js ''projects'', js ''todo-0a1b2c-old'', js ''x.txt''] = None"
    by (simp add: todo_manager_files js_def)
  show "map_of (fs_files (disk (snd (writeFile todo_manager (js ''0a1b2c3d4e5f6071'')
       (js ''../todo-0a1b2c-old/x.txt'') (js ''boom'')))))
     [js ''srv'', js ''projects'', js ''todo-0a1b2c-old'', js ''x.txt''] = Some (js ''boom'')"
    by (simp add: writeFile_def todo_manager_projects todo_manager_files log_fields
        fs_writeFile_def mkdir_recursive_def string_defs)
  show "[js ''srv'', js ''projects'', js ''todo-0a1b2c-old''] \<in>
     fs_dirs (disk (snd (writeFile todo_manager (js ''0a1b2c3d4e5f6071'')
       (js ''../todo-0a1b2c-old/x.txt'') (js ''boom''))))"
    by (simp add: writeFile_def todo_manager_projects log_fields
        fs_writeFile_def mkdir_recursive_def string_defs)
qed

section \<open>Properties of \<open>createProject\<close>\<close>

lemma mkdir_recursive_creates: "path_segments p \<in> fs_dirs (mkdir_recursive d p)"
proof -
  have "take (length (path_segments p)) (path_segments p) \<in>
      (\<lambda>k. take k (path_segments p)) ` {0..<length (path_segments p) + 1}"
    by (rule imageI) simp
  then show ?thesis
    by (simp add: mkdir_recursive_def Let_def)
qed

lemma all_or_error_map:
  "(\<And>k. k \<in> set ks \<Longrightarrow> \<exists>x. f k = Inr x) \<Longrightarrow>
     \<exists>xs. all_or_error (map f ks) = Inr xs \<and> (\<forall>k \<in> set ks. \<forall>x. f k = Inr x \<longrightarrow> x \<in> set xs)"
proof (induction ks)
  case Nil
  then show ?case by simp
next
  case (Cons k ks)
  from Cons.prems obtain x where x: "f k = Inr x" by auto
  from Cons.prems have "\<And>k'. k' \<in> set ks \<Longrightarrow> \<exists>x. f k' = Inr x" by auto
  from Cons.IH [OF this] obtain xs where
    xs: "all_or_error (map f ks) = Inr xs" "\<forall>k \<in> set ks. \<forall>x. f k = Inr x \<longrightarrow> x \<in> set xs"
    by blast
  from x xs have "all_or_error (map f (k # ks)) = Inr (x # xs)" by simp
  moreover from x xs have "\<forall>k' \<in> set (k # ks). \<forall>y. f k' = Inr y \<longrightarrow> y \<in> set (x # xs)"
    by auto
  ultimately show ?case by blast
qed

lemma getProjectStatus_registered:
  "map_of (projects s) k = Some project \<Longrightarrow>
     \<exists>st. getProjectStatus s k = Inr st \<and> st_id st = proj_id project \<and>
       st_name st = proj_name project \<and> st_framework st = proj_framework project"
  by (simp add: getProjectStatus_def Let_def)

lemma listProjects_registered:
  assumes "map_of (projects s) k = Some project"
  shows "\<exists>sts. listProjects s = Inr sts \<and>
    (\<exists>st \<in> set sts. st_id st = proj_id project \<and> st_name st = proj_name project)"
proof -
  have "\<exists>x. getProjectStatus s k' = Inr x" if "k' \<in> set (map fst (projects s))" for k'
  proof -
    from that have "map_of (projects s) k' \<noteq> None"
      by (simp add: map_of_eq_None_iff)
    then obtain p where "map_of (projects s) k' = Some p" by blast
    from getProjectStatus_registered [OF this] show ?thesis by blast
  qed
  from all_or_error_map [of "map fst (projects s)" "getProjectStatus s", OF this]
  obtain sts where sts: "listProjects s = Inr sts"
    "\<forall>k' \<in> set (map fst (projects s)). \<forall>x. getProjectStatus s k' = Inr x \<longrightarrow> x \<in> set sts"
    by (auto simp: listProjects_def)
  from assms have k: "k \<in> set (map fst (projects s))"
    by (metis map_of_eq_None_iff option.distinct(1) set_map)
  from getProjectStatus_registered [OF assms] obtain st where
    st: "getProjectStatus s k = Inr st" "st_id st = proj_id project"
      "st_name st = proj_name project"
    by blast
  with sts k have "st \<in> set sts" by blast
  with sts st show ?thesis by blast
qed

text \<open>
  C10. When the framework has no template (\<open>getTemplate\<close> throws or returns \<open>null\<close>),
  \<open>createProject\<close> fails with the template error, and in the state it leaves behind the
  project directory exists on the disk, the project is in \<open>projects\<close> under its id,
  \<open>getProjectStatus\<close> answers for that id instead of failing with \<open>NotFound\<close>, and
  \<open>listProjects\<close> lists it.
\<close>

theorem createProject_not_atomic_on_template_failure:
  assumes "\<forall>t. getTemplate reactTemplate framework \<noteq> Inr (Some t)"
  shows "\<exists>e s'.
      createProject s name framework description rnd reactTemplate = (Inl e, s') \<and>
      (e = TemplateNotFound \<or> e = TemplateNotImplemented) \<and>
      path_segments (path_join (PROJECTS_DIR s) (projectDirName name (generateId rnd)))
        \<in> fs_dirs (disk s') \<and>
      map_of (projects s') (generateId rnd) =
        Some \<lparr> proj_id = generateId rnd, proj_name = name, proj_framework = framework,
               proj_description = description,
               proj_path = path_join (PROJECTS_DIR s) (projectDirName name (generateId rnd)),
               proj_createdAt = clock s \<rparr> \<and>
      (\<exists>st. getProjectStatus s' (generateId rnd) = Inr st \<and> st_id st = generateId rnd \<and>
            st_name st = name \<and> st_framework st = framework) \<and>
      (\<exists>sts. listProjects s' = Inr sts \<and>
            (\<exists>st \<in> set sts. st_id st = generateId rnd \<and> st_name st = name))"
proof -
  define ident where "ident = generateId rnd"
  define projectPath where
    "projectPath = path_join (PROJECTS_DIR s) (projectDirName name ident)"
  define project where
    "project = \<lparr> proj_id = ident, proj_name = name, proj_framework = framework,
                 proj_description = description, proj_path = projectPath,
                 proj_createdAt = clock s \<rparr>"
  define s3 where
    "s3 = (log s ident Info (js ''Creating project: '' @ name))
            \<lparr>disk := mkdir_recursive (disk s) projectPath,
             projects := AList.update ident project (projects s)\<rparr>"
  define s' where
    "s' = log s3 ident Info (js ''Generating '' @ framework @ js '' template files...'')"
  from assms obtain e where
    e: "e = TemplateNotFound \<or> e = TemplateNotImplemented"
    and gen: "generateProjectFiles s3 project reactTemplate = (Inl e, s')"
  proof (cases "getTemplate reactTemplate framework")
    case (Inl e')
    then have "e' = TemplateNotImplemented"
      by (auto simp: getTemplate_def Let_def split: if_splits)
    with Inl that show ?thesis
      by (simp add: generateProjectFiles_def s'_def project_def Let_def)
  next
    case (Inr r)
    with assms have "r = None" by (cases r) auto
    with Inr that show ?thesis
      by (simp add: generateProjectFiles_def s'_def project_def Let_def)
  qed
  have res: "createProject s name framework description rnd reactTemplate = (Inl e, s')"
    using gen
    by (simp add: createProject_def Let_def log_fields ident_def [symmetric]
        projectPath_def [symmetric] project_def [symmetric] s3_def [symmetric])
  have dir: "path_segments projectPath \<in> fs_dirs (disk s')"
    by (simp add: s'_def s3_def log_fields mkdir_recursive_creates)
  have reg: "map_of (projects s') ident = Some project"
    by (simp add: s'_def s3_def log_fields map_of_update_subs)
  from getProjectStatus_registered [OF reg] listProjects_registered [OF reg] res e dir reg
  show ?thesis
    unfolding project_def projectPath_def ident_def
    by (intro exI [of _ e] exI [of _ s']) simp
qed

theorem createProject_not_atomic_on_template_failure_witness:
  "fst (createProject (new_manager (js ''/srv'') empty_disk 0) (js ''shop'') (js ''vue'') None
         0x0a1b2c3d4e5f6071 []) = Inl TemplateNotImplemented \<and>
   map_option proj_name
     (map_of (projects (snd (createProject (new_manager (js ''/srv'') empty_disk 0)
         (js ''shop'') (js ''vue'') None 0x0a1b2c3d4e5f6071 [])))
       (js ''0a1b2c3d4e5f6071'')) = Some (js ''shop'')"
proof -
  have no: "\<forall>t. getTemplate [] (js ''vue'') \<noteq> Inr (Some t)"
    by (simp add: getTemplate_def toLowerCase_def js_def)
  have err: "fst (createProject (new_manager (js ''/srv'') empty_disk 0) (js ''shop'')
      (js ''vue'') None 0x0a1b2c3d4e5f6071 []) = Inl TemplateNotImplemented"
    by (simp add: createProject_def generateProjectFiles_def getTemplate_def toLowerCase_def
        js_def Let_def)
  from createProject_not_atomic_on_template_failure
    [OF no, of "new_manager (js ''/srv'') empty_disk 0" "js ''shop''" None
      "0x0a1b2c3d4e5f6071"]
  show ?thesis
    using err by (auto simp: generateId_example)
qed

section \<open>Properties of project ids and of the recovery scan\<close>

lemma length_toHex: "length (toHex k n) = k"
proof (induction k arbitrary: n)
  case 0
  then show ?case by (simp add: toHex.simps)
next
  case (Suc k)
  then show ?case by (simp add: toHex.simps [of "Suc k"])
qed

lemma isHexLower_hexDigit: "d < 16 \<Longrightarrow> isHexLower (hexDigit d)"
  by (auto simp: isHexLower_def hexDigit_def isDigit_def)

lemma hex_toHex: "list_all isHexLower (toHex k n)"
proof (induction k arbitrary: n)
  case 0
  then show ?case by (simp add: toHex.simps)
next
  case (Suc k)
  then show ?case by (simp add: toHex.simps [of "Suc k"] isHexLower_hexDigit)
qed

lemma match_id_suffix_append:
  "h \<noteq> [] \<Longrightarrow> list_all isHexLower h \<Longrightarrow> match_id_suffix (pre @ 45 # h) = Some h"
proof (induction pre)
  case Nil
  then show ?case by simp
next
  case (Cons c pre)
  have "\<not> isHexLower 45"
    by (simp add: isHexLower_def isDigit_def)
  then have "\<not> list_all isHexLower (pre @ 45 # h)"
    by simp
  with Cons show ?case by simp
qed

lemma recoverId_projectDirName:
  "recoverId (projectDirName name (generateId rnd)) rnd' = take 6 (generateId rnd)"
proof -
  have len: "length (take 6 (generateId rnd)) = 6"
    by (simp add: generateId_def length_toHex)
  then have "take 6 (generateId rnd) \<noteq> []"
    by auto
  moreover have "list_all isHexLower (take 6 (generateId rnd))"
    using hex_toHex [of 16 rnd]
    by (auto simp: generateId_def list_all_iff dest: in_set_takeD)
  ultimately have "match_id_suffix (sanitizeName name @ 45 # take 6 (generateId rnd)) =
      Some (take 6 (generateId rnd))"
    by (rule match_id_suffix_append)
  then show ?thesis
    by (simp add: recoverId_def projectDirName_def)
qed

text \<open>
  C6, for every project: \<open>createProject\<close> gives a project an id of sixteen hexadecimal
  digits and puts the first six of them into the directory name; the recovery scan
  reads those six digits back as the id. So the id that the scan reconstructs is the
  six-digit prefix of the id the project had when it was created, and never that id:
  a scan of a disk that holds the project's directory registers the project under the
  six digits. For the project \<open>todo\<close> created with the id \<open>0123456789abcdef\<close> the
  directory is \<open>todo-012345\<close> and the recovered id is \<open>012345\<close>.
\<close>

theorem recovered_id_is_not_created_id:
  "length (generateId rnd) = 16 \<and>
   recoverId (projectDirName name (generateId rnd)) rnd' = take 6 (generateId rnd) \<and>
   recoverId (projectDirName name (generateId rnd)) rnd' \<noteq> generateId rnd \<and>
   map fst (projects (loadProjectsFromDisk (new_manager cwd d t)
      [\<lparr> entry_name = projectDirName name (generateId rnd), entry_isDirectory = True,
         entry_manifest = Manifest packageJson, entry_birthtime = b \<rparr>] r)) =
     [take 6 (generateId rnd)] \<and>
   generateId 0x0123456789abcdef = js ''0123456789abcdef'' \<and>
   projectDirName (js ''todo'') (generateId 0x0123456789abcdef) = js ''todo-012345'' \<and>
   recoverId (js ''todo-012345'') 0 = js ''012345''"
proof (intro conjI)
  show len: "length (generateId rnd) = 16"
    by (simp add: generateId_def length_toHex)
  show rec: "recoverId (projectDirName name (generateId rnd)) rnd' = take 6 (generateId rnd)"
    by (rule recoverId_projectDirName)
  have "take 6 (generateId rnd) \<noteq> generateId rnd"
  proof
    assume "take 6 (generateId rnd) = generateId rnd"
    then have "length (take 6 (generateId rnd)) = length (generateId rnd)"
      by simp
    with len show False by simp
  qed
  with rec show "recoverId (projectDirName name (generateId rnd)) rnd' \<noteq> generateId rnd"
    by simp
  show "map fst (projects (loadProjectsFromDisk (new_manager cwd d t)
      [\<lparr> entry_name = projectDirName name (generateId rnd), entry_isDirectory = True,
         entry_manifest = Manifest packageJson, entry_birthtime = b \<rparr>] r)) =
     [take 6 (generateId rnd)]"
    by (simp add: loadProjectsFromDisk_def recoverId_projectDirName new_manager_def Let_def)
  show g: "generateId 0x0123456789abcdef = js ''0123456789abcdef''"
    by (simp add: generateId_def toHex.simps hexDigit_def js_def)
  show "projectDirName (js ''todo'') (generateId 0x0123456789abcdef) = js ''todo-012345''"
    by (simp add: g projectDirName_def sanitizeName_def toLowerCase_def isDigit_def js_def)
  show "recoverId (js ''todo-012345'') 0 = js ''012345''"
    by (simp add: recoverId_def isHexLower_def isDigit_def js_def)
qed

section \<open>Properties of \<open>stopDevServer\<close>\<close>

lemma map_of_AList_delete:
  "map_of (AList.delete k al) q = (if q = k then None else map_of al q)"
  by (simp add: delete_conv')

lemma stopDevServer_not_running:
  "map_of (processes s) p = None \<Longrightarrow> stopDevServer s p env = s"
  by (simp add: stopDevServer_def)

lemma stopDevServer_removes_handle: "map_of (processes (stopDevServer s p env)) p = None"
  by (cases "map_of (processes s) p")
     (simp_all add: stopDevServer_def Let_def log_fields releasePort_def map_of_AList_delete
        split: option.splits)

lemma stopDevServer_releases:
  assumes "map_of (processes s) p = Some childProcess"
    and "map_of (ports s) p = Some port" and "port \<noteq> 0"
  shows "map_of (ports (stopDevServer s p env)) p = None"
    and "usedPorts (stopDevServer s p env) = usedPorts s - {port}"
    and "KillPort port \<in> set (os_trace (stopDevServer s p env))"
  using assms
  by (simp_all add: stopDevServer_def Let_def log_fields releasePort_def map_of_AList_delete)

lemma usedPorts_todo_manager:
  "usedPorts todo_manager = {}" "processes todo_manager = []" "ports todo_manager = []"
  by (simp_all add: todo_manager_def createProject_def generateProjectFiles_def getTemplate_def
      new_manager_def log_fields js_def toLowerCase_def Let_def)

text \<open>
  C9. \<open>stopDevServer\<close> returns a state and has no error result. On a project without a
  tracked dev-server process it returns the state unchanged; hence a second
  \<open>stopDevServer\<close> right after a first one changes nothing, whatever the operating
  system answers. A stop that finds a tracked process whose port is recorded removes
  the process handle and the port entry of the project, takes the port out of
  \<open>usedPorts\<close>, and asks for the forced termination on that port; this holds for every
  answer of the operating system, also when sending the signals throws.
\<close>

theorem stopDevServer_idempotent_and_releases:
  "(map_of (processes s) p = None \<longrightarrow> stopDevServer s p env = s) \<and>
   stopDevServer (stopDevServer s p env) p env' = stopDevServer s p env \<and>
   (\<forall>port. map_of (processes s) p \<noteq> None \<and> map_of (ports s) p = Some port \<and> port \<noteq> 0 \<longrightarrow>
      map_of (processes (stopDevServer s p env)) p = None \<and>
      map_of (ports (stopDevServer s p env)) p = None \<and>
      port \<notin> usedPorts (stopDevServer s p env) \<and>
      usedPorts (stopDevServer s p env) = usedPorts s - {port} \<and>
      KillPort port \<in> set (os_trace (stopDevServer s p env)))"
proof (intro conjI allI impI)
  assume "map_of (processes s) p = None"
  then show "stopDevServer s p env = s"
    by (rule stopDevServer_not_running)
next
  show "stopDevServer (stopDevServer s p env) p env' = stopDevServer s p env"
    by (rule stopDevServer_not_running) (rule stopDevServer_removes_handle)
next
  fix port
  assume a: "map_of (processes s) p \<noteq> None \<and> map_of (ports s) p = Some port \<and> port \<noteq> 0"
  then obtain childProcess where c: "map_of (processes s) p = Some childProcess"
    by blast
  from a have pt: "map_of (ports s) p = Some port" and nz: "port \<noteq> 0"
    by simp_all
  show "map_of (processes (stopDevServer s p env)) p = None"
    by (rule stopDevServer_removes_handle)
  show "map_of (ports (stopDevServer s p env)) p = None"
    by (rule stopDevServer_releases(1) [OF c pt nz])
  show u: "usedPorts (stopDevServer s p env) = usedPorts s - {port}"
    by (rule stopDevServer_releases(2) [OF c pt nz])
  from u show "port \<notin> usedPorts (stopDevServer s p env)"
    by simp
  show "KillPort port \<in> set (os_trace (stopDevServer s p env))"
    by (rule stopDevServer_releases(3) [OF c pt nz])
qed

theorem stopDevServer_idempotent_and_releases_witness:
  "map_of (ports (snd (startDevServer todo_manager (js ''0a1b2c3d4e5f6071'')
      \<lparr>child_pid = Some 4711\<rparr>))) (js ''0a1b2c3d4e5f6071'') = Some 3002 \<and>
   usedPorts (snd (startDevServer todo_manager (js ''0a1b2c3d4e5f6071'')
      \<lparr>child_pid = Some 4711\<rparr>)) = {3002} \<and>
   usedPorts (stopDevServer (snd (startDevServer todo_manager (js ''0a1b2c3d4e5f6071'')
      \<lparr>child_pid = Some 4711\<rparr>)) (js ''0a1b2c3d4e5f6071'')
      \<lparr>term_throws = True, killed_after_wait = False, kill_throws = True,
        exec_throws = True\<rparr>) = {} \<and>
   map_of (processes (stopDevServer (snd (startDevServer todo_manager (js ''0a1b2c3d4e5f6071'')
      \<lparr>child_pid = Some 4711\<rparr>)) (js ''0a1b2c3d4e5f6071'')
      \<lparr>term_throws = True, killed_after_wait = False, kill_throws = True,
        exec_throws = True\<rparr>)) (js ''0a1b2c3d4e5f6071'') = None"
proof -
  let ?s = "snd (startDevServer todo_manager (js ''0a1b2c3d4e5f6071'')
      \<lparr>child_pid = Some 4711\<rparr>)"
  have alloc: "allocatePort todo_manager = (Inr 3002, todo_manager\<lparr>usedPorts := {3002}\<rparr>)"
    by (simp add: allocatePort_def allocatePort_loop.simps usedPorts_todo_manager
        PORT_RANGE_START_def PORT_RANGE_END_def)
  have running: "map_of (processes ?s) (js ''0a1b2c3d4e5f6071'') \<noteq> None"
    and port: "map_of (ports ?s) (js ''0a1b2c3d4e5f6071'') = Some 3002"
    and used: "usedPorts ?s = {3002}"
    by (simp_all add: startDevServer_def todo_manager_projects usedPorts_todo_manager alloc
        log_fields Let_def js_def)
  from stopDevServer_idempotent_and_releases
    [of ?s "js ''0a1b2c3d4e5f6071''"
      "\<lparr>term_throws = True, killed_after_wait = False, kill_throws = True,
         exec_throws = True\<rparr>"]
    running port used
  show ?thesis by simp
qed

section \<open>Runs of start, stop and close events\<close>

lemma createProject_react:
  assumes "logSubscriptions s = []"
  shows "snd (createProject s name (js ''react'') descr rnd []) =
    s\<lparr>disk := mkdir_recursive (disk s)
               (path_join (PROJECTS_DIR s) (projectDirName name (generateId rnd))),
      projects := AList.update (generateId rnd)
        \<lparr> proj_id = generateId rnd, proj_name = name, proj_framework = js ''react'',
          proj_description = descr,
          proj_path = path_join (PROJECTS_DIR s) (projectDirName name (generateId rnd)),
          proj_createdAt = clock s \<rparr> (projects s)\<rparr>"
proof -
  have "getTemplate [] (js ''react'') = Inr (Some [])"
    by (simp add: getTemplate_def toLowerCase_def js_def)
  with assms show ?thesis
    by (simp add: createProject_def generateProjectFiles_def log_no_subscribers Let_def)
qed

lemma three_projects_idle:
  "processes three_projects = []" "ports three_projects = []" "usedPorts three_projects = {}"
  "close_listeners three_projects = []" "logSubscriptions three_projects = []"
  by (simp_all add: three_projects_def createProject_react new_manager_def Let_def)

lemma generateId_abc:
  "generateId 0xaaaaaaaaaaaaaaaa = js ''aaaaaaaaaaaaaaaa''"
  "generateId 0xbbbbbbbbbbbbbbbb = js ''bbbbbbbbbbbbbbbb''"
  "generateId 0xcccccccccccccccc = js ''cccccccccccccccc''"
  by (simp_all add: generateId_def toHex.simps hexDigit_def js_def)

lemma three_projects_registered:
  "map_of (projects three_projects) (js ''aaaaaaaaaaaaaaaa'') \<noteq> None"
  "map_of (projects three_projects) (js ''bbbbbbbbbbbbbbbb'') \<noteq> None"
  "map_of (projects three_projects) (js ''cccccccccccccccc'') \<noteq> None"
  by (simp_all add: three_projects_def createProject_react new_manager_def Let_def
      generateId_abc map_of_update_subs)

text \<open>
  C2 at the failing input. Three projects \<open>a\<close>, \<open>b\<close>, \<open>c\<close> are registered and no dev server
  runs. The dev server of \<open>a\<close> is started (port 3002) and stopped; the dev server of \<open>b\<close>
  is started and gets the released port 3002; then the \<open>close\<close> event of the first
  child arrives, and its listener, which holds \<open>a\<close> and 3002, releases port 3002 again.
  Now \<open>usedPorts\<close> is empty although the process handle of \<open>b\<close> holds port 3002. The next
  \<open>startDevServer\<close>, for \<open>c\<close>, is given port 3002 as well: the port is allocated to \<open>b\<close>
  and to \<open>c\<close> at once.
\<close>

theorem stale_close_breaks_port_invariant:
  "(case run three_projects
          [StartDevServer (js ''aaaaaaaaaaaaaaaa'') \<lparr>child_pid = Some 101\<rparr>,
           StopDevServer (js ''aaaaaaaaaaaaaaaa'')
             \<lparr>term_throws = False, killed_after_wait = True, kill_throws = False,
               exec_throws = False\<rparr>,
           StartDevServer (js ''bbbbbbbbbbbbbbbb'') \<lparr>child_pid = Some 102\<rparr>,
           ChildClose (js ''aaaaaaaaaaaaaaaa'') 3002 None] of
      None \<Rightarrow> False
    | Some s \<Rightarrow>
        map fst (processes s) = [js ''bbbbbbbbbbbbbbbb''] \<and>
        ports s = [(js ''bbbbbbbbbbbbbbbb'', 3002)] \<and>
        handle_ports s = {3002} \<and>
        usedPorts s = {} \<and>
        (case step s (StartDevServer (js ''cccccccccccccccc'') \<lparr>child_pid = Some 103\<rparr>) of
           None \<Rightarrow> False
         | Some s' \<Rightarrow>
             ports s' = [(js ''bbbbbbbbbbbbbbbb'', 3002), (js ''cccccccccccccccc'', 3002)] \<and>
             holders s' 3002 = [js ''bbbbbbbbbbbbbbbb'', js ''cccccccccccccccc''] \<and>
             map fst (processes s') = [js ''bbbbbbbbbbbbbbbb'', js ''cccccccccccccccc'']))"
proof -
  let ?a = "js ''aaaaaaaaaaaaaaaa''" and ?b = "js ''bbbbbbbbbbbbbbbb''"
    and ?c = "js ''cccccccccccccccc''"
  let ?env = "\<lparr>term_throws = False, killed_after_wait = True, kill_throws = False,
      exec_throws = False\<rparr>"
  obtain pa where pa: "map_of (projects three_projects) ?a = Some pa"
    using three_projects_registered(1) by blast
  obtain pb where pb: "map_of (projects three_projects) ?b = Some pb"
    using three_projects_registered(2) by blast
  obtain pc where pc: "map_of (projects three_projects) ?c = Some pc"
    using three_projects_registered(3) by blast
  have ne: "?a \<noteq> ?b" "?b \<noteq> ?c" "?a \<noteq> ?c" "?b \<noteq> ?a" "?c \<noteq> ?b" "?c \<noteq> ?a"
    by (simp_all add: js_def)
  define s1 where "s1 = snd (startDevServer three_projects ?a \<lparr>child_pid = Some 101\<rparr>)"
  have s1: "projects s1 = projects three_projects"
    "processes s1 = [(?a, \<lparr>child_pid = Some 101\<rparr>)]" "ports s1 = [(?a, 3002)]"
    "usedPorts s1 = {3002}" "close_listeners s1 = [(?a, 3002)]"
    by (simp_all add: s1_def startDevServer_def pa three_projects_idle allocatePort_def
        allocatePort_loop.simps PORT_RANGE_START_def PORT_RANGE_END_def log_fields Let_def)
  define s2 where "s2 = stopDevServer s1 ?a ?env"
  have s2: "projects s2 = projects three_projects" "processes s2 = []" "ports s2 = []"
    "usedPorts s2 = {}" "close_listeners s2 = [(?a, 3002)]"
    by (simp_all add: s2_def stopDevServer_def s1 releasePort_def log_fields Let_def)
  define s3 where "s3 = snd (startDevServer s2 ?b \<lparr>child_pid = Some 102\<rparr>)"
  have s3: "projects s3 = projects three_projects"
    "processes s3 = [(?b, \<lparr>child_pid = Some 102\<rparr>)]" "ports s3 = [(?b, 3002)]"
    "usedPorts s3 = {3002}" "close_listeners s3 = [(?a, 3002), (?b, 3002)]"
    by (simp_all add: s3_def startDevServer_def s2 pb allocatePort_def
        allocatePort_loop.simps PORT_RANGE_START_def PORT_RANGE_END_def log_fields Let_def)
  define s4 where
    "s4 = (onChildClose s3 ?a 3002 None)\<lparr>close_listeners := remove1 (?a, 3002) (close_listeners s3)\<rparr>"
  have s4: "projects s4 = projects three_projects"
    "processes s4 = [(?b, \<lparr>child_pid = Some 102\<rparr>)]" "ports s4 = [(?b, 3002)]"
    "usedPorts s4 = {}"
    by (simp_all add: s4_def onChildClose_def s3 ne releasePort_def log_fields Let_def)
  define s5 where "s5 = snd (startDevServer s4 ?c \<lparr>child_pid = Some 103\<rparr>)"
  have s5: "processes s5 = [(?b, \<lparr>child_pid = Some 102\<rparr>), (?c, \<lparr>child_pid = Some 103\<rparr>)]"
    "ports s5 = [(?b, 3002), (?c, 3002)]"
    by (simp_all add: s5_def startDevServer_def s4 pc ne allocatePort_def
        allocatePort_loop.simps PORT_RANGE_START_def PORT_RANGE_END_def log_fields Let_def)
  have run: "run three_projects
      [StartDevServer ?a \<lparr>child_pid = Some 101\<rparr>, StopDevServer ?a ?env,
       StartDevServer ?b \<lparr>child_pid = Some 102\<rparr>, ChildClose ?a 3002 None] = Some s4"
    by (simp add: s1_def [symmetric] s2_def [symmetric] s3_def [symmetric] s3 s4_def)
  have step: "step s4 (StartDevServer ?c \<lparr>child_pid = Some 103\<rparr>) = Some s5"
    by (simp add: s5_def)
  have "handle_ports s4 = {3002}"
    by (simp add: handle_ports_def s4)
  moreover have "holders s5 3002 = [?b, ?c]"
    by (simp add: holders_def s5)
  ultimately show ?thesis
    by (subst run, simp only: option.case, subst step) (simp add: s4 s5)
qed

section \<open>The port invariant holds as long as no \<open>close\<close> event is late\<close>

lemma handle_ports_conv:
  "handle_ports s =
     {port. \<exists>p. map_of (processes s) p \<noteq> None \<and> map_of (ports s) p = Some port}"
proof -
  have "set (List.map_filter f xs) = {y. \<exists>x \<in> set xs. f x = Some y}" for f :: "'a \<Rightarrow> 'b option" and xs
    by (induction xs) (auto split: option.splits)
  then have "handle_ports s =
      {port. \<exists>kv \<in> set (processes s). map_of (ports s) (fst kv) = Some port}"
    by (simp add: handle_ports_def)
  also have "\<dots> = {port. \<exists>p \<in> fst ` set (processes s). map_of (ports s) p = Some port}"
    by auto
  also have "fst ` set (processes s) = dom (map_of (processes s))"
    by (simp add: dom_map_of_conv_image_fst)
  finally show ?thesis by (auto simp: dom_def)
qed

lemma dom_eq_None_iff: "dom m = dom m' \<Longrightarrow> (m p = None) = (m' p = None)"
  by (metis domIff)

lemma lifecycle_ok_doms:
  "lifecycle_ok s \<Longrightarrow> (map_of (ports s) p = None) = (map_of (processes s) p = None)"
  by (rule dom_eq_None_iff) (simp add: lifecycle_ok_def)

lemma lifecycle_ok_handle_ports:
  assumes "lifecycle_ok s"
  shows "usedPorts s = handle_ports s"
proof -
  from assms have used: "usedPorts s = ran (map_of (ports s))"
    by (simp add: lifecycle_ok_def)
  have "map_of (processes s) p \<noteq> None" if "map_of (ports s) p = Some port" for p port
    using that lifecycle_ok_doms [OF assms, of p] by simp
  then have "ran (map_of (ports s)) = handle_ports s"
    unfolding handle_ports_conv ran_def by blast
  with used show ?thesis by simp
qed

lemma startDevServer_state:
  "(ports (snd (startDevServer s p c)) = ports s \<and>
    processes (snd (startDevServer s p c)) = processes s \<and>
    usedPorts (snd (startDevServer s p c)) = usedPorts s) \<or>
   (map_of (processes s) p = None \<and>
    (\<exists>port. port \<notin> usedPorts s \<and> PORT_RANGE_START \<le> port \<and> port \<le> PORT_RANGE_END \<and>
       ports (snd (startDevServer s p c)) = AList.update p port (ports s) \<and>
       processes (snd (startDevServer s p c)) = AList.update p c (processes s) \<and>
       usedPorts (snd (startDevServer s p c)) = insert port (usedPorts s)))"
proof (cases "map_of (projects s) p")
  case None
  then show ?thesis by (simp add: startDevServer_def)
next
  case (Some project)
  show ?thesis
  proof (cases "map_of (processes s) p")
    case running: (Some c')
    with Some show ?thesis
      by (simp add: startDevServer_def split: option.splits)
  next
    case None
    show ?thesis
    proof (cases "allocatePort_loop PORT_RANGE_START (usedPorts s)")
      case (Inl e)
      with Some None show ?thesis
        by (simp add: startDevServer_def allocatePort_def)
    next
      case (Inr r)
      obtain port u where r: "r = (port, u)" by (cases r)
      note h = allocatePort_loop_Inr [OF Inr [unfolded r]]
      from Some None Inr r h have
        "ports (snd (startDevServer s p c)) = AList.update p port (ports s)"
        "processes (snd (startDevServer s p c)) = AList.update p c (processes s)"
        "usedPorts (snd (startDevServer s p c)) = insert port (usedPorts s)"
        by (simp_all add: startDevServer_def allocatePort_def log_fields Let_def)
      with None h show ?thesis by blast
    qed
  qed
qed

lemma lifecycle_ok_start:
  assumes "lifecycle_ok s"
  shows "lifecycle_ok (snd (startDevServer s p c))"
proof -
  from startDevServer_state [of s p c] show ?thesis
  proof (elim disjE conjE exE)
    assume "ports (snd (startDevServer s p c)) = ports s"
      "processes (snd (startDevServer s p c)) = processes s"
      "usedPorts (snd (startDevServer s p c)) = usedPorts s"
    with assms show ?thesis by (simp add: lifecycle_ok_def)
  next
    fix port
    assume idle: "map_of (processes s) p = None"
      and free: "port \<notin> usedPorts s"
      and range: "PORT_RANGE_START \<le> port" "port \<le> PORT_RANGE_END"
      and st: "ports (snd (startDevServer s p c)) = AList.update p port (ports s)"
        "processes (snd (startDevServer s p c)) = AList.update p c (processes s)"
        "usedPorts (snd (startDevServer s p c)) = insert port (usedPorts s)"
    from idle have none: "map_of (ports s) p = None"
      by (simp add: lifecycle_ok_doms [OF assms])
    from assms free have fresh: "port \<notin> ran (map_of (ports s))"
      by (simp add: lifecycle_ok_def)
    then have fresh': "map_of (ports s) q \<noteq> Some port" for q
      by (auto simp: ran_def)
    show ?thesis
      unfolding lifecycle_ok_def st update_conv'
    proof (intro conjI allI impI ballI)
      from assms none show "insert port (usedPorts s) = ran ((map_of (ports s))(p \<mapsto> port))"
        by (simp add: lifecycle_ok_def)
    next
      fix a b pt
      assume "((map_of (ports s))(p \<mapsto> port)) a = Some pt \<and>
        ((map_of (ports s))(p \<mapsto> port)) b = Some pt"
      with assms fresh' show "a = b"
        unfolding lifecycle_ok_def by (auto split: if_splits)
    next
      from assms show "dom ((map_of (ports s))(p \<mapsto> port)) =
          dom ((map_of (processes s))(p \<mapsto> c))"
        by (simp add: lifecycle_ok_def)
    next
      fix pt
      assume "pt \<in> ran ((map_of (ports s))(p \<mapsto> port))"
      with none have "pt = port \<or> pt \<in> ran (map_of (ports s))"
        by simp
      with assms range show "PORT_RANGE_START \<le> pt" "pt \<le> PORT_RANGE_END"
        by (auto simp: lifecycle_ok_def)
    qed
  qed
qed

text \<open>Taking a project with its port out of a state that satisfies the invariant.\<close>

lemma lifecycle_ok_remove:
  assumes ok: "lifecycle_ok s"
    and pt: "map_of (ports s) p = Some port"
    and s': "ports s' = AList.delete p (ports s)" "processes s' = AList.delete p (processes s)"
      "usedPorts s' = usedPorts s - {port}"
  shows "lifecycle_ok s'"
proof -
  from ok pt have others: "map_of (ports s) q = Some port \<Longrightarrow> q = p" for q
    unfolding lifecycle_ok_def by blast
  have ran: "ran ((map_of (ports s))(p := None)) = ran (map_of (ports s)) - {port}"
  proof (rule set_eqI, rule iffI)
    fix x
    assume "x \<in> ran ((map_of (ports s))(p := None))"
    then obtain q where q: "q \<noteq> p" "map_of (ports s) q = Some x"
      by (auto simp: ran_def split: if_splits)
    from q(2) have "x \<in> ran (map_of (ports s))"
      by (rule ranI)
    moreover from q others have "x \<noteq> port"
      by blast
    ultimately show "x \<in> ran (map_of (ports s)) - {port}"
      by simp
  next
    fix x
    assume "x \<in> ran (map_of (ports s)) - {port}"
    then obtain q where q: "map_of (ports s) q = Some x" "x \<noteq> port"
      by (auto simp: ran_def)
    with pt have "q \<noteq> p"
      by auto
    with q(1) have "((map_of (ports s))(p := None)) q = Some x"
      by simp
    then show "x \<in> ran ((map_of (ports s))(p := None))"
      by (rule ranI)
  qed
  show ?thesis
    unfolding lifecycle_ok_def s' delete_conv'
  proof (intro conjI allI impI ballI)
    from ok ran show "usedPorts s - {port} = ran ((map_of (ports s))(p := None))"
      by (simp add: lifecycle_ok_def)
  next
    fix a b pt'
    assume "((map_of (ports s))(p := None)) a = Some pt' \<and>
      ((map_of (ports s))(p := None)) b = Some pt'"
    with ok show "a = b"
      unfolding lifecycle_ok_def by (auto split: if_splits)
  next
    from ok show "dom ((map_of (ports s))(p := None)) = dom ((map_of (processes s))(p := None))"
      by (simp add: lifecycle_ok_def)
  next
    fix pt'
    assume "pt' \<in> ran ((map_of (ports s))(p := None))"
    with ran ok show "PORT_RANGE_START \<le> pt'" "pt' \<le> PORT_RANGE_END"
      by (auto simp: lifecycle_ok_def)
  qed
qed

lemma lifecycle_ok_stop:
  assumes "lifecycle_ok s"
  shows "lifecycle_ok (stopDevServer s p env)"
proof (cases "map_of (processes s) p")
  case None
  with assms show ?thesis by (simp add: stopDevServer_not_running)
next
  case (Some c)
  with lifecycle_ok_doms [OF assms, of p] obtain port where
    pt: "map_of (ports s) p = Some port"
    by auto
  with assms have "PORT_RANGE_START \<le> port"
    by (auto simp: lifecycle_ok_def ran_def)
  then have nz: "port \<noteq> 0"
    by (simp add: PORT_RANGE_START_def)
  from Some pt nz have
    "ports (stopDevServer s p env) = AList.delete p (ports s)"
    "processes (stopDevServer s p env) = AList.delete p (processes s)"
    "usedPorts (stopDevServer s p env) = usedPorts s - {port}"
    by (simp_all add: stopDevServer_def log_fields releasePort_def Let_def)
  with assms pt show ?thesis by (rule lifecycle_ok_remove)
qed

lemma lifecycle_ok_close:
  assumes "lifecycle_ok s" and "map_of (ports s) p = Some port"
  shows "lifecycle_ok ((onChildClose s p port code)\<lparr>close_listeners := l\<rparr>)"
  using assms
  by (rule lifecycle_ok_remove)
     (simp_all add: onChildClose_def log_fields releasePort_def Let_def)

lemma lifecycle_ok_new_manager: "lifecycle_ok (new_manager cwd d t)"
  by (simp add: lifecycle_ok_def new_manager_def)

text \<open>
  What does hold of C2: from a state that satisfies the invariant (such as a new
  manager), after every timely run of start, stop and close events the used ports are
  the ports held by the process handles and no port is recorded for two projects.
\<close>

lemma timely_run_keeps_invariant:
  "lifecycle_ok s \<Longrightarrow> timely_run s es \<Longrightarrow>
     \<exists>s'. run s es = Some s' \<and> lifecycle_ok s' \<and> usedPorts s' = handle_ports s'"
proof (induction es arbitrary: s)
  case Nil
  then show ?case by (simp add: lifecycle_ok_handle_ports)
next
  case (Cons e es)
  from Cons.prems obtain s1 where s1: "step s e = Some s1" and rest: "timely_run s1 es"
    and t: "timely s e"
    by (auto split: option.splits)
  have "lifecycle_ok s1"
  proof (cases e)
    case (StartDevServer p c)
    with s1 Cons.prems(1) show ?thesis
      by (auto intro: lifecycle_ok_start)
  next
    case (StopDevServer p env)
    with s1 Cons.prems(1) show ?thesis
      by (auto intro: lifecycle_ok_stop)
  next
    case (ChildClose p port code)
    with s1 t Cons.prems(1) show ?thesis
      by (auto intro: lifecycle_ok_close split: if_splits)
  qed
  from Cons.IH [OF this rest] s1 show ?case by simp
qed

end
